theory Spec2Isabelle
  imports Complex_Main "HOL-Library.AList" "HOL-Library.Sublist" "HOL-Library.Char_ord"
    "HOL-Library.List_Lexorder"
begin

section \<open>Strings of the weather helper\<close>

text \<open>
  The module \<^verbatim>\<open>helpers/weather.js\<close> works on JavaScript strings. A string is modelled as a
  \<^typ>\<open>string\<close>, each \<^typ>\<open>char\<close> standing for one code unit in the range U+0000..U+00FF.
  In that range the class \<^verbatim>\<open>\s\<close> of regular expressions, which is also what
  \<^verbatim>\<open>String.prototype.trim\<close> strips, holds TAB, LF, VT, FF, CR, SPACE and NBSP.
\<close>

definition is_ws :: "char \<Rightarrow> bool" where
  "is_ws c \<longleftrightarrow>
     c = CHR 0x09 \<or> c = CHR 0x0A \<or> c = CHR 0x0B \<or> c = CHR 0x0C \<or> c = CHR 0x0D \<or>
     c = CHR 0x20 \<or> c = CHR 0xA0"

text \<open>\<^verbatim>\<open>s.trim()\<close>: white space is dropped at both ends.\<close>

definition trimEnd :: "string \<Rightarrow> string" where
  "trimEnd s = rev (dropWhile is_ws (rev s))"

definition trim :: "string \<Rightarrow> string" where
  "trim s = trimEnd (dropWhile is_ws s)"

text \<open>
  \<^verbatim>\<open>s.replace(/\s*,\s*/g, ", ")\<close>. The scan goes from left to right. At a position the
  pattern matches when the (greedy) run of white space that starts there is followed by a
  comma; the match then also takes the white space after the comma, the replacement is
  written and the scan goes on behind the match. Where the pattern does not match, the
  code unit is copied and the scan moves one position on.
\<close>

function replaceCommas :: "string \<Rightarrow> string" where
  "replaceCommas [] = []"
| "replaceCommas (c # cs) =
     (case dropWhile is_ws (c # cs) of
        [] \<Rightarrow> c # replaceCommas cs
      | d # ds \<Rightarrow>
          if d = CHR '','' then '', '' @ replaceCommas (dropWhile is_ws ds)
          else c # replaceCommas cs)"
  by pat_completeness auto
termination
proof (relation "measure length", goal_cases)
  case 1
  show ?case by simp
next
  case (2 c cs)
  show ?case by simp
next
  case (3 c cs d ds)
  have "length (dropWhile is_ws ds) \<le> length ds"
    by (rule length_dropWhile_le)
  moreover have "length (d # ds) \<le> length (c # cs)"
    unfolding 3(1) [symmetric] by (rule length_dropWhile_le)
  ultimately show ?case by simp
next
  case (4 c cs d ds)
  show ?case by simp
qed

text \<open>\<^verbatim>\<open>s.replace(/\s+/g, " ")\<close>: every maximal run of white space becomes one space.\<close>

function replaceSpaces :: "string \<Rightarrow> string" where
  "replaceSpaces [] = []"
| "replaceSpaces (c # cs) =
     (if is_ws c then CHR '' '' # replaceSpaces (dropWhile is_ws cs)
      else c # replaceSpaces cs)"
  by pat_completeness auto
termination
proof (relation "measure length", goal_cases)
  case 1
  show ?case by simp
next
  case (2 c cs)
  have "length (dropWhile is_ws cs) \<le> length cs"
    by (rule length_dropWhile_le)
  then show ?case by simp
next
  case (3 c cs)
  show ?case by simp
qed

text \<open>\<^verbatim>\<open>normalizePlace(input)\<close>, lines 20 to 25.\<close>

definition normalizePlace :: "string \<Rightarrow> string" where
  "normalizePlace input = replaceSpaces (replaceCommas (trim input))"


text \<open>
  \<^verbatim>\<open>s.toLowerCase()\<close> on code units up to U+00FF: the letters A to Z and the Latin-1
  capitals U+00C0..U+00DE (without the multiplication sign U+00D7) move up by 32, every
  other code unit stays.
\<close>

definition toLowerChar :: "char \<Rightarrow> char" where
  "toLowerChar c =
     (let n = (of_char c :: nat)
      in if (65 \<le> n \<and> n \<le> 90) \<or> (192 \<le> n \<and> n \<le> 222 \<and> n \<noteq> 215)
         then char_of (n + 32) else c)"

definition toLowerCase :: "string \<Rightarrow> string" where
  "toLowerCase s = map toLowerChar s"

text \<open>
  \<^verbatim>\<open>s.toUpperCase()\<close>. The module calls it only on a string that has passed the test
  \<^verbatim>\<open>/^[A-Za-z]{2}$/\<close>, so the model gives the ASCII letters their capitals and leaves
  the rest alone.
\<close>

definition toUpperChar :: "char \<Rightarrow> char" where
  "toUpperChar c =
     (let n = (of_char c :: nat)
      in if 97 \<le> n \<and> n \<le> 122 then char_of (n - 32) else c)"

definition toUpperCase :: "string \<Rightarrow> string" where
  "toUpperCase s = map toUpperChar s"

definition isAsciiLetter :: "char \<Rightarrow> bool" where
  "isAsciiLetter c =
     (let n = (of_char c :: nat) in (65 \<le> n \<and> n \<le> 90) \<or> (97 \<le> n \<and> n \<le> 122))"

text \<open>\<^verbatim>\<open>s.split(sep)\<close> for a separator of one code unit; the empty string gives one empty part.\<close>

fun splitOn :: "char \<Rightarrow> string \<Rightarrow> string list" where
  "splitOn sep [] = [[]]"
| "splitOn sep (c # cs) =
     (if c = sep then [] # splitOn sep cs
      else (case splitOn sep cs of [] \<Rightarrow> [[c]] | p # ps \<Rightarrow> (c # p) # ps))"

text \<open>\<^verbatim>\<open>s.includes(t)\<close>: \<open>t\<close> occurs in \<open>s\<close> as a contiguous piece.\<close>

fun includesStr :: "string \<Rightarrow> string \<Rightarrow> bool" where
  "includesStr [] t = (t = [])"
| "includesStr (c # cs) t = (prefix t (c # cs) \<or> includesStr cs t)"

text \<open>
  \<^verbatim>\<open>q.split(",").map((p) => p.trim()).filter(Boolean)\<close>, the parts that
  \<^verbatim>\<open>maybeAppendUS\<close> and \<^verbatim>\<open>pickBestGeoMatch\<close> both compute: an empty string is falsy.
\<close>

definition commaParts :: "string \<Rightarrow> string list" where
  "commaParts q = filter (\<lambda>p. p \<noteq> []) (map trim (splitOn CHR '','' q))"

text \<open>The test \<^verbatim>\<open>/^[A-Za-z]{2}$/\<close>.\<close>

definition twoLetters :: "string \<Rightarrow> bool" where
  "twoLetters p \<longleftrightarrow> length p = 2 \<and> list_all isAsciiLetter p"

text \<open>\<^verbatim>\<open>maybeAppendUS(q)\<close>, lines 28 to 34.\<close>

definition maybeAppendUS :: "string \<Rightarrow> string" where
  "maybeAppendUS q =
     (let parts = commaParts q
      in if length parts = 2 \<and> twoLetters (parts ! 1)
         then parts ! 0 @ '', '' @ toUpperCase (parts ! 1) @ '', US''
         else q)"

section \<open>Geocoder matches\<close>

text \<open>
  A match of the geocoder, as parsed from its JSON answer. The coordinates are numbers
  parsed from JSON, on which \<^verbatim>\<open>===\<close> is an equivalence (JSON has no NaN); the model
  keeps their type open and compares them with HOL's equality. A match always has a name
  and a country, so that \<^verbatim>\<open>g.country ?? ""\<close> is the country; a match without a state
  has \<open>state = None\<close>.
\<close>

record 'c GeoMatch =
  name :: string
  state :: "string option"
  country :: string
  lat :: 'c
  lon :: 'c

text \<open>\<^verbatim>\<open>arr.findIndex(p)\<close>; \<open>None\<close> stands for the result \<open>-1\<close>.\<close>

fun findIndex :: "('a \<Rightarrow> bool) \<Rightarrow> 'a list \<Rightarrow> nat option" where
  "findIndex p [] = None"
| "findIndex p (x # xs) = (if p x then Some 0 else map_option Suc (findIndex p xs))"

text \<open>\<^verbatim>\<open>dedupeGeo(results)\<close>, lines 37 to 41: the filter sees every element with its index.\<close>

definition dedupeGeo :: "('c, 'z) GeoMatch_scheme list \<Rightarrow> ('c, 'z) GeoMatch_scheme list" where
  "dedupeGeo results =
     map snd (filter (\<lambda>(i, g). Some i = findIndex (\<lambda>x. lat x = lat g \<and> lon x = lon g) results)
       (enumerate 0 results))"

text \<open>\<^verbatim>\<open>g.state ?? ""\<close>.\<close>

definition stateOrEmpty :: "('c, 'z) GeoMatch_scheme \<Rightarrow> string" where
  "stateOrEmpty g = (case state g of None \<Rightarrow> [] | Some s \<Rightarrow> s)"

text \<open>
  \<^verbatim>\<open>pickBestGeoMatch(query, geoResults)\<close>, lines 44 to 77. \<^verbatim>\<open>find\<close> gives the first
  element that passes, or \<^verbatim>\<open>undefined\<close> (here \<open>None\<close>); \<^verbatim>\<open>geoResults[0]\<close> of an empty
  array is \<^verbatim>\<open>undefined\<close> as well.
\<close>

definition pickBestGeoMatch ::
  "string \<Rightarrow> ('c, 'z) GeoMatch_scheme list \<Rightarrow> ('c, 'z) GeoMatch_scheme option" where
  "pickBestGeoMatch query geoResults =
     (let q = toLowerCase query;
          parts = commaParts query;
          maybeState = (if 2 \<le> length parts then toLowerCase (parts ! 1) else []);
          maybeCountry = (if 3 \<le> length parts then toLowerCase (parts ! 2) else []);
          stateHit =
            (if maybeState \<noteq> []
             then find (\<lambda>g. toLowerCase (stateOrEmpty g) = maybeState) geoResults else None);
          countryHit =
            (if maybeCountry \<noteq> [] \<and> length maybeCountry \<le> 3
             then find (\<lambda>g. toLowerCase (country g) = maybeCountry) geoResults else None);
          stateNameHit =
            find (\<lambda>g. let st = toLowerCase (stateOrEmpty g) in st \<noteq> [] \<and> includesStr q st)
              geoResults
      in case stateHit of Some g \<Rightarrow> Some g
         | None \<Rightarrow>
             (case countryHit of Some g \<Rightarrow> Some g
              | None \<Rightarrow>
                  (case stateNameHit of Some g \<Rightarrow> Some g
                   | None \<Rightarrow> (case geoResults of [] \<Rightarrow> None | g # gs \<Rightarrow> Some g))))"

section \<open>Day keys\<close>

text \<open>
  A \<^verbatim>\<open>Date\<close> is its time value, a number of milliseconds since the epoch, or the
  invalid date: \<^verbatim>\<open>new Date(ms)\<close> is invalid when \<open>ms\<close> lies more than 8.64e15
  milliseconds from the epoch. A number is an \<^typ>\<open>int\<close> or NaN, here \<open>None\<close>; the
  getters of the invalid date give NaN. The three getters the module reads follow the
  proleptic Gregorian calendar of the language standard: \<open>civil\<close> turns a day number
  (days since 1970-01-01) into year, month (1 to 12) and day of the month.
\<close>

definition civil :: "int \<Rightarrow> int \<times> int \<times> int" where
  "civil days =
     (let z = days + 719468;
          era = z div 146097;
          doe = z mod 146097;
          yoe = (doe - doe div 1460 + doe div 36524 - doe div 146096) div 365;
          y = yoe + era * 400;
          doy = doe - (365 * yoe + yoe div 4 - yoe div 100);
          mp = (5 * doy + 2) div 153;
          d = doy - (153 * mp + 2) div 5 + 1;
          m = (if mp < 10 then mp + 3 else mp - 9)
      in (if m \<le> 2 then y + 1 else y, m, d))"

definition newDate :: "int \<Rightarrow> int option" where
  "newDate ms =
     (if - 8640000000000000 \<le> ms \<and> ms \<le> 8640000000000000 then Some ms else None)"

definition getUTCFullYear :: "int option \<Rightarrow> int option" where
  "getUTCFullYear date = map_option (\<lambda>ms. fst (civil (ms div 86400000))) date"

definition getUTCMonth :: "int option \<Rightarrow> int option" where
  "getUTCMonth date = map_option (\<lambda>ms. fst (snd (civil (ms div 86400000))) - 1) date"

definition getUTCDate :: "int option \<Rightarrow> int option" where
  "getUTCDate date = map_option (\<lambda>ms. snd (snd (civil (ms div 86400000)))) date"

text \<open>\<^verbatim>\<open>String(n)\<close> of an integer: its decimal digits, with a minus sign when negative.\<close>

function digits :: "nat \<Rightarrow> string" where
  "digits n = (if n < 10 then [char_of (48 + n)] else digits (n div 10) @ [char_of (48 + n mod 10)])"
  by pat_completeness auto
termination
  by (relation "measure id") auto

definition numToString :: "int \<Rightarrow> string" where
  "numToString i = (if i < 0 then CHR ''-'' # digits (nat (- i)) else digits (nat i))"

text \<open>The same for a number that may be NaN, which prints as \<open>NaN\<close>.\<close>

definition numberToString :: "int option \<Rightarrow> string" where
  "numberToString n = (case n of None \<Rightarrow> ''NaN'' | Some i \<Rightarrow> numToString i)"

text \<open>\<^verbatim>\<open>s.padStart(2, "0")\<close>.\<close>

definition padStart2 :: "string \<Rightarrow> string" where
  "padStart2 s = replicate (2 - length s) CHR ''0'' @ s"

text \<open>\<^verbatim>\<open>dayKeyFromUtcWithOffset(dtSeconds, tzOffsetSeconds)\<close>, lines 79 to 86.\<close>

definition dayKeyFromUtcWithOffset :: "int \<Rightarrow> int \<Rightarrow> string" where
  "dayKeyFromUtcWithOffset dtSeconds tzOffsetSeconds =
     (let localMs = (dtSeconds + tzOffsetSeconds) * 1000;
          d = newDate localMs;
          y = getUTCFullYear d;
          m = padStart2 (numberToString (map_option (\<lambda>k. k + 1) (getUTCMonth d)));
          day = padStart2 (numberToString (getUTCDate d))
      in numberToString y @ ''-'' @ m @ ''-'' @ day)"

text \<open>
  \<^verbatim>\<open>Number(s)\<close> on the pieces of a day key: a string of decimal digits is its value, the
  empty string is 0, anything else is NaN (\<open>None\<close>).
\<close>

definition Number :: "string \<Rightarrow> int option" where
  "Number s =
     (if list_all (\<lambda>c. CHR ''0'' \<le> c \<and> c \<le> CHR ''9'') s
      then Some (foldl (\<lambda>acc c. 10 * acc + (int (of_char c) - 48)) 0 s)
      else None)"

text \<open>
  \<^verbatim>\<open>labelFromKey(key)\<close>, lines 88 to 92. What \<^verbatim>\<open>Date.UTC(y, m - 1, d)\<close> followed by
  \<^verbatim>\<open>toLocaleDateString("en-US", ...)\<close> prints belongs to the runtime and its locale data;
  it is the parameter \<open>fmt\<close>, applied to the three numbers that the destructuring reads.
\<close>

definition labelFromKey :: "(int option list \<Rightarrow> string) \<Rightarrow> string \<Rightarrow> string" where
  "labelFromKey fmt key = fmt (take 3 (map Number (splitOn CHR ''-'' key)))"

section \<open>The forecast summary\<close>

text \<open>
  A point of the forecast. Temperatures and probabilities are the numbers of the JSON
  answer, which the module only compares (\<^verbatim>\<open>Math.min\<close>, \<^verbatim>\<open>Math.max\<close>), so they are
  \<^typ>\<open>real\<close>; a field that is absent or \<^verbatim>\<open>null\<close> is \<open>None\<close>, and so is a \<^verbatim>\<open>pop\<close>
  that is not a number.
\<close>

record main_block =
  temp :: "real option"
  temp_min :: "real option"
  temp_max :: "real option"
  feels_like :: "real option"
  humidity :: "real option"

record weather_entry =
  description :: "string option"

record forecast_item =
  dt :: int
  main :: "main_block option"
  weather :: "weather_entry list option"
  pop :: "real option"

text \<open>The aggregate of one day; \<open>descCounts\<close> is a \<^verbatim>\<open>Map\<close>, which keeps its keys in
  the order of their first insertion.\<close>

record day_agg =
  agg_min :: real
  agg_max :: real
  descCounts :: "(string \<times> nat) list"
  popMax :: real

record day_summary =
  day_label :: string
  day_min :: real
  day_max :: real
  day_desc :: string
  day_pop :: real

text \<open>\<^verbatim>\<open>item.main?.temp_min ?? item.main?.temp ?? null\<close> and its twin for the maximum.\<close>

definition itemMin :: "forecast_item \<Rightarrow> real option" where
  "itemMin item =
     (case main item of None \<Rightarrow> None
      | Some m \<Rightarrow> (case temp_min m of Some v \<Rightarrow> Some v | None \<Rightarrow> temp m))"

definition itemMax :: "forecast_item \<Rightarrow> real option" where
  "itemMax item =
     (case main item of None \<Rightarrow> None
      | Some m \<Rightarrow> (case temp_max m of Some v \<Rightarrow> Some v | None \<Rightarrow> temp m))"

text \<open>\<^verbatim>\<open>item.weather?.[0]?.description ?? "unknown"\<close>.\<close>

definition itemDesc :: "forecast_item \<Rightarrow> string" where
  "itemDesc item =
     (case weather item of None \<Rightarrow> ''unknown''
      | Some [] \<Rightarrow> ''unknown''
      | Some (w # ws) \<Rightarrow> (case description w of None \<Rightarrow> ''unknown'' | Some d \<Rightarrow> d))"

text \<open>\<^verbatim>\<open>typeof item.pop === "number" ? item.pop : 0\<close>.\<close>

definition itemPop :: "forecast_item \<Rightarrow> real" where
  "itemPop item = (case pop item of None \<Rightarrow> 0 | Some p \<Rightarrow> p)"

text \<open>
  Lines 113 to 121, what one point does to the aggregate of its day. A \<^verbatim>\<open>Map\<close> is an
  association list in insertion order: \<^verbatim>\<open>get\<close> is \<^const>\<open>map_of\<close>, and \<^verbatim>\<open>set\<close> is
  \<^const>\<open>AList.update\<close>, which replaces the value of a key that is there in place and
  puts a new key at the end.
\<close>

definition foldPoint :: "day_agg \<Rightarrow> real \<Rightarrow> real \<Rightarrow> forecast_item \<Rightarrow> day_agg" where
  "foldPoint agg mn mx item =
     (let desc = itemDesc item;
          n = (case map_of (descCounts agg) desc of None \<Rightarrow> 0 | Some k \<Rightarrow> k)
      in agg\<lparr>agg_min := min (agg_min agg) mn,
             agg_max := max (agg_max agg) mx,
             descCounts := AList.update desc (n + 1) (descCounts agg),
             popMax := max (popMax agg) (itemPop item)\<rparr>)"

text \<open>
  The body of the loop of lines 97 to 122. A point without a minimum or without a maximum
  is passed over (\<^verbatim>\<open>continue\<close>); otherwise the aggregate of its day is created if the
  day is new, and updated. The aggregate is an object that the loop mutates through the
  map, so the new aggregate takes the place of the old one.
\<close>

definition addPoint :: "int \<Rightarrow> (string \<times> day_agg) list \<Rightarrow> forecast_item \<Rightarrow> (string \<times> day_agg) list" where
  "addPoint tzOffsetSeconds byDay item =
     (let key = dayKeyFromUtcWithOffset (dt item) tzOffsetSeconds
      in case (itemMin item, itemMax item) of
           (Some mn, Some mx) \<Rightarrow>
             (let agg = (case map_of byDay key of
                           None \<Rightarrow> \<lparr>agg_min = mn, agg_max = mx, descCounts = [], popMax = 0\<rparr>
                         | Some a \<Rightarrow> a)
              in AList.update key (foldPoint agg mn mx item) byDay)
         | _ \<Rightarrow> byDay)"

text \<open>Lines 132 to 139: the description with the first strictly greatest count.\<close>

definition topDescOf :: "(string \<times> nat) list \<Rightarrow> string" where
  "topDescOf counts =
     fst (foldl (\<lambda>(topDesc, topCount) (desc, count).
                   if count > topCount then (desc, count) else (topDesc, topCount))
            (''mixed conditions'', 0) counts)"

text \<open>
  \<^verbatim>\<open>arr.slice(0, n)\<close>: the first \<open>n\<close> elements, and for a negative \<open>n\<close> all but the
  last \<open>- n\<close>.
\<close>

definition slice0 :: "'a list \<Rightarrow> int \<Rightarrow> 'a list" where
  "slice0 xs n = (if n < 0 then take (nat (int (length xs) + n)) xs else take (nat n) xs)"

text \<open>Lines 124 to 127: the keys of the days to report; \<open>nowMs\<close> is \<^verbatim>\<open>Date.now()\<close>.\<close>

definition chosenKeys :: "int \<Rightarrow> (string \<times> day_agg) list \<Rightarrow> int \<Rightarrow> int \<Rightarrow> string list" where
  "chosenKeys nowMs byDay tzOffsetSeconds days =
     (let nowKey = dayKeyFromUtcWithOffset (nowMs div 1000) tzOffsetSeconds;
          keys = sort (map fst byDay);
          futureKeys = filter (\<lambda>k. k \<noteq> nowKey) keys
      in slice0 (if futureKeys \<noteq> [] then futureKeys else keys) days)"

text \<open>Lines 129 to 148, the summary of one aggregate.\<close>

definition summaryOf :: "(int option list \<Rightarrow> string) \<Rightarrow> string \<Rightarrow> day_agg \<Rightarrow> day_summary" where
  "summaryOf fmt k agg =
     \<lparr>day_label = labelFromKey fmt k, day_min = agg_min agg, day_max = agg_max agg,
      day_desc = topDescOf (descCounts agg), day_pop = popMax agg\<rparr>"

text \<open>
  \<^verbatim>\<open>summarizeForecast(list, tzOffsetSeconds, days)\<close>, lines 94 to 149, with the clock and
  the formatter of the runtime as parameters. Reading a field of \<^verbatim>\<open>byDay.get(k)\<close> would
  throw if the key were not in the map: the result is \<open>None\<close> then.
\<close>

definition summarizeForecast ::
  "(int option list \<Rightarrow> string) \<Rightarrow> int \<Rightarrow> forecast_item list \<Rightarrow> int \<Rightarrow> int \<Rightarrow> day_summary list option" where
  "summarizeForecast fmt nowMs list tzOffsetSeconds days =
     (let byDay = foldl (addPoint tzOffsetSeconds) [] list;
          chosen = chosenKeys nowMs byDay tzOffsetSeconds days
      in those (map (\<lambda>k. map_option (summaryOf fmt k) (map_of byDay k)) chosen))"

section \<open>The lookup\<close>

text \<open>
  What the module throws: an \<^verbatim>\<open>Error\<close> of its own with its message, or a rejection that
  comes from \<^verbatim>\<open>fetch\<close> or \<^verbatim>\<open>res.json()\<close>, or a \<^verbatim>\<open>TypeError\<close> of the runtime.
\<close>

datatype error = Error string | Rejection | TypeError

text \<open>
  What a request comes back with: no response at all, a response that is not \<^verbatim>\<open>ok\<close>
  with its status and its text (\<open>None\<close> if the text cannot be read), a body that is not
  JSON, or the parsed body.
\<close>

datatype 'j response = FetchRejected | HttpNotOk nat "string option" | JsonRejected | JsonBody 'j

text \<open>\<^verbatim>\<open>fetchJson(url)\<close>, lines 10 to 17, on the response that the request gets.\<close>

definition fetchJson :: "'j response \<Rightarrow> error + 'j" where
  "fetchJson res =
     (case res of
        FetchRejected \<Rightarrow> Inl Rejection
      | HttpNotOk status text \<Rightarrow>
          Inl (Error (''HTTP '' @ numToString (int status) @ '' calling OpenWeather. '' @
                 take 200 (case text of None \<Rightarrow> [] | Some t \<Rightarrow> t)))
      | JsonRejected \<Rightarrow> Inl Rejection
      | JsonBody j \<Rightarrow> Inr j)"

text \<open>\<^verbatim>\<open>assertApiKey()\<close>, lines 4 to 8: a variable that is unset or empty is falsy.\<close>

definition assertApiKey :: "string option \<Rightarrow> error + unit" where
  "assertApiKey key =
     (if key = None \<or> key = Some []
      then Inl (Error ''Missing OPENWEATHER_KEY env var. Add it to GitHub Secrets (Codespaces).'')
      else Inr ())"

text \<open>The answer of the geocoder: an array of matches, or some other JSON value.\<close>

datatype 'c geo_body = GeoArray "'c GeoMatch list" | GeoOther

record wind_block =
  speed :: "real option"

record current_body =
  timezone :: "int option"
  cur_main :: "main_block option"
  wind :: "wind_block option"
  cur_weather :: "weather_entry list option"

text \<open>The forecast answer carries an offset of its own, \<open>fc_timezone\<close>, beside its list.\<close>

record forecast_body =
  fc_list :: "forecast_item list option"
  fc_timezone :: "int option"

record current_conditions =
  cur_temp :: "real option"
  cur_feels :: "real option"
  cur_humidity :: "real option"
  cur_wind :: "real option"
  cur_desc :: string

text \<open>The value that \<^verbatim>\<open>getWeather\<close> returns: \<^verbatim>\<open>{ok: false, message}\<close> or
  \<^verbatim>\<open>{ok: true, location, current, nextDays}\<close>.\<close>

datatype result = Failure string | Success string current_conditions "day_summary list"

text \<open>The requests that went out, in order.\<close>

datatype 'c call = GeoCall string | CurrentCall 'c 'c | ForecastCall 'c 'c

text \<open>
  Everything outside the module: the credential read at load time, the three endpoints
  (each request is determined by the query, or by the coordinates), the clock and the
  date formatter.
\<close>

record 'c env =
  API_KEY :: "string option"
  geoLookup :: "string \<Rightarrow> 'c geo_body response"
  currentLookup :: "'c \<Rightarrow> 'c \<Rightarrow> current_body response"
  forecastLookup :: "'c \<Rightarrow> 'c \<Rightarrow> forecast_body response"
  dateNow :: int
  dateFormat :: "int option list \<Rightarrow> string"

text \<open>\<^verbatim>\<open>[...new Set(xs)]\<close>: the first occurrence of every element, in order.\<close>

definition uniq :: "'a list \<Rightarrow> 'a list" where
  "uniq xs = foldl (\<lambda>acc x. if x \<in> set acc then acc else acc @ [x]) [] xs"

text \<open>
  The loop of lines 165 to 175 over the candidates; \<open>calls\<close> collects the requests. The
  result \<open>Inr None\<close> says that no candidate had a match (\<^verbatim>\<open>geo\<close> stays \<^verbatim>\<open>null\<close>).
\<close>

fun geoLoop :: "'c env \<Rightarrow> string list \<Rightarrow> 'c call list \<Rightarrow> 'c call list \<times> (error + 'c GeoMatch list option)" where
  "geoLoop env [] calls = (calls, Inr None)"
| "geoLoop env (q # qs) calls =
     (case fetchJson (geoLookup env q) of
        Inl e \<Rightarrow> (calls @ [GeoCall q], Inl e)
      | Inr attempt \<Rightarrow>
          (case attempt of
             GeoArray (g # gs) \<Rightarrow> (calls @ [GeoCall q], Inr (Some (dedupeGeo (g # gs))))
           | _ \<Rightarrow> geoLoop env qs (calls @ [GeoCall q])))"

text \<open>A word character of \<^verbatim>\<open>\b\<close>: a letter, a digit or the underscore.\<close>

definition isWordChar :: "char \<Rightarrow> bool" where
  "isWordChar c \<longleftrightarrow> isAsciiLetter c \<or> (CHR ''0'' \<le> c \<and> c \<le> CHR ''9'') \<or> c = CHR ''_''"

text \<open>
  \<^verbatim>\<open>/\bus\b/i\<close> from some position on; \<open>prevWord\<close> says whether the code unit before
  the position is a word character. The letters of the pattern match their two cases.
\<close>

fun usToken :: "bool \<Rightarrow> string \<Rightarrow> bool" where
  "usToken prevWord (a # b # rest) =
     ((\<not> prevWord \<and> toLowerChar a = CHR ''u'' \<and> toLowerChar b = CHR ''s'' \<and>
       (case rest of [] \<Rightarrow> True | c # cs \<Rightarrow> \<not> isWordChar c))
      \<or> usToken (isWordChar a) (b # rest))"
| "usToken prevWord rest = False"

text \<open>Lines 188 to 190. The pattern is all ASCII letters and a space, so matching without
  regard to case is matching the lowered string.\<close>

definition seemsSpecific :: "string \<Rightarrow> bool" where
  "seemsSpecific normalized \<longleftrightarrow>
     includesStr normalized '','' \<or>
     includesStr (toLowerCase normalized) ''united states'' \<or>
     includesStr (toLowerCase normalized) ''usa'' \<or>
     usToken False normalized"

text \<open>\<^verbatim>\<open>xs.join(sep)\<close>.\<close>

fun joinWith :: "string \<Rightarrow> string list \<Rightarrow> string" where
  "joinWith sep [] = []"
| "joinWith sep [x] = x"
| "joinWith sep (x # y # ys) = x @ sep @ joinWith sep (y # ys)"

text \<open>\<^verbatim>\<open>${g.name}${g.state ? `, ${g.state}` : ""}, ${g.country}\<close>, lines 197 and 210.\<close>

definition placeLine :: "'c GeoMatch \<Rightarrow> string" where
  "placeLine g =
     name g @ (case state g of None \<Rightarrow> [] | Some s \<Rightarrow> if s \<noteq> [] then '', '' @ s else []) @
     '', '' @ country g"

text \<open>Line 197, the option with index \<open>i\<close>.\<close>

definition optionLine :: "nat \<Rightarrow> 'c GeoMatch \<Rightarrow> string" where
  "optionLine i g = ''**'' @ numToString (int i + 1) @ ''.** '' @ placeLine g"

definition notFoundMessage :: "string \<Rightarrow> string" where
  "notFoundMessage place =
     ''Couldn'' @ [CHR 0x27] @ ''t find **'' @ place @ ''**. Try '' @ [CHR 0x22] @
     ''Seattle, WA, US'' @ [CHR 0x22] @ '' or '' @ [CHR 0x22] @ ''Paris, FR'' @ [CHR 0x22] @ ''.''"

definition multipleMessage :: "string \<Rightarrow> 'c GeoMatch list \<Rightarrow> string" where
  "multipleMessage place geo =
     ''I found multiple matches for **'' @ place @ ''**:'' @ [CHR 0x0A] @
     joinWith [CHR 0x0A] (map (\<lambda>(i, g). optionLine i g) (enumerate 0 (take 3 geo))) @
     [CHR 0x0A, CHR 0x0A] @
     ''Try adding state/country (ex: '' @ [CHR 0x22] @ ''Houston, TX, US'' @ [CHR 0x22] @
     '' or '' @ [CHR 0x22] @ ''Paris, FR'' @ [CHR 0x22] @ '').''"

text \<open>Lines 226 to 232.\<close>

definition currentOf :: "current_body \<Rightarrow> current_conditions" where
  "currentOf cur =
     \<lparr>cur_temp = (case cur_main cur of None \<Rightarrow> None | Some m \<Rightarrow> temp m),
      cur_feels = (case cur_main cur of None \<Rightarrow> None | Some m \<Rightarrow> feels_like m),
      cur_humidity = (case cur_main cur of None \<Rightarrow> None | Some m \<Rightarrow> humidity m),
      cur_wind = (case wind cur of None \<Rightarrow> None | Some w \<Rightarrow> speed w),
      cur_desc = (case cur_weather cur of None \<Rightarrow> ''unknown''
                  | Some [] \<Rightarrow> ''unknown''
                  | Some (w # ws) \<Rightarrow> (case description w of None \<Rightarrow> ''unknown'' | Some d \<Rightarrow> d))\<rparr>"

text \<open>Lines 209 to 241, from the chosen location on.\<close>

definition fetchWeather :: "'c env \<Rightarrow> 'c call list \<Rightarrow> 'c GeoMatch \<Rightarrow> 'c call list \<times> (error + result)" where
  "fetchWeather env calls loc =
     (let calls1 = calls @ [CurrentCall (lat loc) (lon loc)]
      in case fetchJson (currentLookup env (lat loc) (lon loc)) of
           Inl e \<Rightarrow> (calls1, Inl e)
         | Inr cur \<Rightarrow>
             (let calls2 = calls1 @ [ForecastCall (lat loc) (lon loc)]
              in case fetchJson (forecastLookup env (lat loc) (lon loc)) of
                   Inl e \<Rightarrow> (calls2, Inl e)
                 | Inr forecast \<Rightarrow>
                     (let tzOffsetSeconds = (case timezone cur of None \<Rightarrow> 0 | Some z \<Rightarrow> z)
                      in case summarizeForecast (dateFormat env) (dateNow env)
                                (case fc_list forecast of None \<Rightarrow> [] | Some l \<Rightarrow> l)
                                tzOffsetSeconds 3 of
                           None \<Rightarrow> (calls2, Inl TypeError)
                         | Some nextDays \<Rightarrow>
                             (calls2, Inr (Success (placeLine loc) (currentOf cur) nextDays)))))"

text \<open>
  \<^verbatim>\<open>getWeather(place)\<close>, lines 151 to 242: the requests that went out, and what the call
  threw (\<open>Inl\<close>) or returned (\<open>Inr\<close>).
\<close>

definition getWeather :: "'c env \<Rightarrow> string \<Rightarrow> 'c call list \<times> (error + result)" where
  "getWeather env place =
     (case assertApiKey (API_KEY env) of
        Inl e \<Rightarrow> ([], Inl e)
      | Inr u \<Rightarrow>
          (let normalized = normalizePlace place;
               candidates = uniq [normalized, maybeAppendUS normalized, normalized @ '', US'']
           in case geoLoop env candidates [] of
                (calls, Inl e) \<Rightarrow> (calls, Inl e)
              | (calls, Inr None) \<Rightarrow> (calls, Inr (Failure (notFoundMessage place)))
              | (calls, Inr (Some geo)) \<Rightarrow>
                  if geo = [] then (calls, Inr (Failure (notFoundMessage place)))
                  else if length geo > 1 then
                    (if seemsSpecific normalized then
                       (case pickBestGeoMatch normalized geo of
                          None \<Rightarrow> (calls, Inl TypeError)
                        | Some loc \<Rightarrow> fetchWeather env calls loc)
                     else (calls, Inr (Failure (multipleMessage place geo))))
                  else fetchWeather env calls (hd geo)))"

section \<open>Notions used in the statements\<close>

text \<open>
  The shape of a normalized place. Reading from the left, a comma is followed by exactly
  one space and then by no further white space; any other white space is a single space
  that stands before a character which is neither white space nor a comma.
\<close>

fun tight :: "string \<Rightarrow> bool" where
  "tight [] = True"
| "tight (c # cs) =
    (if c = CHR '','' then
       (case cs of [] \<Rightarrow> False
        | d # ds \<Rightarrow> d = CHR '' '' \<and> (case ds of [] \<Rightarrow> True | e # es \<Rightarrow> \<not> is_ws e) \<and> tight ds)
     else if is_ws c then
       c = CHR '' '' \<and> (case cs of [] \<Rightarrow> False | d # ds \<Rightarrow> \<not> is_ws d \<and> d \<noteq> CHR '','' \<and> tight cs)
     else tight cs)"

text \<open>No white space at the start, and none at the end.\<close>

definition no_lead :: "string \<Rightarrow> bool" where
  "no_lead s = (case s of [] \<Rightarrow> True | c # cs \<Rightarrow> \<not> is_ws c)"

definition no_trail :: "string \<Rightarrow> bool" where
  "no_trail s = (case rev s of [] \<Rightarrow> True | c # cs \<Rightarrow> \<not> is_ws c)"

text \<open>The white space at the start of \<open>cs\<close> is followed by a comma.\<close>

definition comma_next :: "string \<Rightarrow> bool" where
  "comma_next cs = (case dropWhile is_ws cs of [] \<Rightarrow> False | d # ds \<Rightarrow> d = CHR '','')"

text \<open>The two replacements of \<^verbatim>\<open>normalizePlace\<close>, one after the other.\<close>

definition squeeze :: "string \<Rightarrow> string" where
  "squeeze t = replaceSpaces (replaceCommas t)"

text \<open>Two matches have the same latitude and the same longitude.\<close>

definition sameCoords :: "('c, 'z) GeoMatch_scheme \<Rightarrow> ('c, 'z) GeoMatch_scheme \<Rightarrow> bool" where
  "sameCoords x g \<longleftrightarrow> lat x = lat g \<and> lon x = lon g"

text \<open>No match before index \<open>i\<close> has the coordinates of the match at \<open>i\<close>.\<close>

definition firstAt :: "('c, 'z) GeoMatch_scheme list \<Rightarrow> nat \<Rightarrow> bool" where
  "firstAt rs i \<longleftrightarrow> (\<forall>j<i. \<not> sameCoords (rs ! j) (rs ! i))"

text \<open>\<open>g\<close> is the first element of \<open>xs\<close> that passes the test \<open>p\<close>.\<close>

definition firstSuch :: "('a \<Rightarrow> bool) \<Rightarrow> 'a list \<Rightarrow> 'a \<Rightarrow> bool" where
  "firstSuch p xs g \<longleftrightarrow> (\<exists>i<length xs. xs ! i = g \<and> p g \<and> (\<forall>j<i. \<not> p (xs ! j)))"

text \<open>The three tests of the selection. The second and the third part of the query are
  taken among its trimmed parts that are not empty.\<close>

definition stateTokenHit :: "string \<Rightarrow> ('c, 'z) GeoMatch_scheme \<Rightarrow> bool" where
  "stateTokenHit query g \<longleftrightarrow>
     2 \<le> length (commaParts query) \<and>
     toLowerCase (stateOrEmpty g) = toLowerCase (commaParts query ! 1)"

definition countryTokenHit :: "string \<Rightarrow> ('c, 'z) GeoMatch_scheme \<Rightarrow> bool" where
  "countryTokenHit query g \<longleftrightarrow>
     3 \<le> length (commaParts query) \<and> length (commaParts query ! 2) \<le> 3 \<and>
     toLowerCase (country g) = toLowerCase (commaParts query ! 2)"

definition stateNameHit :: "string \<Rightarrow> ('c, 'z) GeoMatch_scheme \<Rightarrow> bool" where
  "stateNameHit query g \<longleftrightarrow>
     stateOrEmpty g \<noteq> [] \<and> sublist (toLowerCase (stateOrEmpty g)) (toLowerCase query)"

text \<open>The selection read word for word from its description: the second and the third
  segment are those of the comma split itself, trimmed and in lower case, empty ones
  included.\<close>

definition rawSegment :: "string \<Rightarrow> nat \<Rightarrow> string option" where
  "rawSegment query i =
     (let segs = splitOn CHR '','' query
      in if i < length segs then Some (toLowerCase (trim (segs ! i))) else None)"

definition pickBySegments ::
  "string \<Rightarrow> ('c, 'z) GeoMatch_scheme list \<Rightarrow> ('c, 'z) GeoMatch_scheme option" where
  "pickBySegments query ms =
     (case (case rawSegment query 1 of None \<Rightarrow> None
            | Some s \<Rightarrow> find (\<lambda>g. toLowerCase (stateOrEmpty g) = s) ms) of
        Some g \<Rightarrow> Some g
      | None \<Rightarrow>
          (case (case rawSegment query 2 of None \<Rightarrow> None
                 | Some s \<Rightarrow> if length s \<le> 3 then find (\<lambda>g. toLowerCase (country g) = s) ms
                             else None) of
             Some g \<Rightarrow> Some g
           | None \<Rightarrow>
               (case find (stateNameHit query) ms of
                  Some g \<Rightarrow> Some g
                | None \<Rightarrow> (case ms of [] \<Rightarrow> None | g # gs \<Rightarrow> Some g))))"

text \<open>A point that the loop does not pass over: it has a minimum and a maximum.\<close>

definition usable :: "forecast_item \<Rightarrow> bool" where
  "usable item \<longleftrightarrow> itemMin item \<noteq> None \<and> itemMax item \<noteq> None"

text \<open>The day of a point, the usable points of a day in the order of the list, and the
  days that have a usable point.\<close>

definition keyOf :: "int \<Rightarrow> forecast_item \<Rightarrow> string" where
  "keyOf tz item = dayKeyFromUtcWithOffset (dt item) tz"

definition dayPoints :: "int \<Rightarrow> forecast_item list \<Rightarrow> string \<Rightarrow> forecast_item list" where
  "dayPoints tz list k = filter (\<lambda>item. usable item \<and> keyOf tz item = k) list"

definition dayKeys :: "int \<Rightarrow> forecast_item list \<Rightarrow> string set" where
  "dayKeys tz list = set (map (keyOf tz) (filter usable list))"

text \<open>The minimum and the maximum that a usable point brings.\<close>

definition minOf :: "forecast_item \<Rightarrow> real" where
  "minOf item = (case itemMin item of None \<Rightarrow> 0 | Some v \<Rightarrow> v)"

definition maxOf :: "forecast_item \<Rightarrow> real" where
  "maxOf item = (case itemMax item of None \<Rightarrow> 0 | Some v \<Rightarrow> v)"

text \<open>What a point does to the aggregate of its own day, which may not exist yet.\<close>

definition aggStep :: "day_agg option \<Rightarrow> forecast_item \<Rightarrow> day_agg option" where
  "aggStep a item =
     (if usable item
      then Some (foldPoint
                  (case a of
                     None \<Rightarrow> \<lparr>agg_min = minOf item, agg_max = maxOf item, descCounts = [], popMax = 0\<rparr>
                   | Some b \<Rightarrow> b)
                  (minOf item) (maxOf item) item)
      else a)"

text \<open>The aggregate \<open>b\<close> after the usable points \<open>pts\<close>.\<close>

definition aggFold :: "day_agg \<Rightarrow> forecast_item list \<Rightarrow> day_agg" where
  "aggFold b pts = foldl (\<lambda>a item. foldPoint a (minOf item) (maxOf item) item) b pts"

text \<open>The aggregate of the day \<open>k\<close>.\<close>

definition dayAgg :: "int \<Rightarrow> forecast_item list \<Rightarrow> string \<Rightarrow> day_agg" where
  "dayAgg tz list k =
     (case dayPoints tz list k of
        [] \<Rightarrow> \<lparr>agg_min = 0, agg_max = 0, descCounts = [], popMax = 0\<rparr>
      | p # ps \<Rightarrow>
          aggFold \<lparr>agg_min = minOf p, agg_max = maxOf p, descCounts = [], popMax = 0\<rparr> (p # ps))"

text \<open>The table of counts after the descriptions \<open>ds\<close>, from the table \<open>t\<close>.\<close>

definition bump :: "(string \<times> nat) list \<Rightarrow> string \<Rightarrow> (string \<times> nat) list" where
  "bump t d = AList.update d ((case map_of t d of None \<Rightarrow> 0 | Some k \<Rightarrow> k) + 1) t"

text \<open>The days that the summary reports on: all days with a usable point but the one
  of the clock, unless that is the only one.\<close>

definition remainingDays :: "int \<Rightarrow> int \<Rightarrow> forecast_item list \<Rightarrow> string set" where
  "remainingDays nowMs tz list =
     (let today = dayKeyFromUtcWithOffset (nowMs div 1000) tz
      in if dayKeys tz list - {today} \<noteq> {} then dayKeys tz list - {today} else dayKeys tz list)"

text \<open>The queries that \<^verbatim>\<open>getWeather\<close> tries for a place, in order.\<close>

definition candidatesOf :: "string \<Rightarrow> string list" where
  "candidatesOf place =
     uniq [normalizePlace place, maybeAppendUS (normalizePlace place), normalizePlace place @ '', US'']"

text \<open>A standalone \<open>us\<close>: the two letters, in either case, with no word character right
  before them and none right after.\<close>

definition usStandalone :: "string \<Rightarrow> bool" where
  "usStandalone s \<longleftrightarrow>
     (\<exists>pre a b post. s = pre @ a # b # post \<and>
        toLowerChar a = CHR ''u'' \<and> toLowerChar b = CHR ''s'' \<and>
        (case rev pre of [] \<Rightarrow> True | c # cs \<Rightarrow> \<not> isWordChar c) \<and>
        (case post of [] \<Rightarrow> True | c # cs \<Rightarrow> \<not> isWordChar c))"

text \<open>The same from a position whose left neighbour is a word character or not.\<close>

definition usFrom :: "bool \<Rightarrow> string \<Rightarrow> bool" where
  "usFrom prevWord s \<longleftrightarrow>
     (\<exists>pre a b post. s = pre @ a # b # post \<and>
        toLowerChar a = CHR ''u'' \<and> toLowerChar b = CHR ''s'' \<and>
        (case rev pre of [] \<Rightarrow> \<not> prevWord | c # cs \<Rightarrow> \<not> isWordChar c) \<and>
        (case post of [] \<Rightarrow> True | c # cs \<Rightarrow> \<not> isWordChar c))"

text \<open>The line of an option as the description of the list words it: the rank, a full
  stop, and the place.\<close>

definition optionLineAsWorded :: "nat \<Rightarrow> 'c GeoMatch \<Rightarrow> string" where
  "optionLineAsWorded i g = numToString (int i + 1) @ ''. '' @ placeLine g"

text \<open>An environment for the examples. A key is set; the geocoder answers every query
  with the same three places; both weather requests succeed, the current conditions
  without an offset, the forecast with an offset of its own of one hour and two points in
  the last hour of the second of January 1970. The formatter prints the day of the month.\<close>

definition springfields :: "int GeoMatch list" where
  "springfields =
     [\<lparr>name = ''Springfield'', state = Some ''Illinois'', country = ''US'', lat = 39, lon = - 89\<rparr>,
      \<lparr>name = ''Springfield'', state = Some ''Missouri'', country = ''US'', lat = 37, lon = - 93\<rparr>,
      \<lparr>name = ''Springfield'', state = None, country = ''CA'', lat = 49, lon = - 96\<rparr>]"

definition springfieldEnv :: "int env" where
  "springfieldEnv =
     \<lparr>API_KEY = Some ''key'',
      geoLookup = (\<lambda>q. JsonBody (GeoArray springfields)),
      currentLookup =
        (\<lambda>a b. JsonBody \<lparr>timezone = None, cur_main = None, wind = None, cur_weather = None\<rparr>),
      forecastLookup =
        (\<lambda>a b. JsonBody
           \<lparr>fc_list = Some
              [\<lparr>dt = 169200,
                main = Some \<lparr>temp = Some 60, temp_min = None, temp_max = Some 70,
                             feels_like = None, humidity = None\<rparr>,
                weather = Some [\<lparr>description = Some ''rain''\<rparr>], pop = None\<rparr>,
               \<lparr>dt = 171000,
                main = Some \<lparr>temp = Some 55, temp_min = None, temp_max = None,
                             feels_like = None, humidity = None\<rparr>,
                weather = Some [\<lparr>description = Some ''sun''\<rparr>], pop = Some (6 / 10)\<rparr>],
            fc_timezone = Some 3600\<rparr>),
      dateNow = 0,
      dateFormat = (\<lambda>ymd. case ymd of [y, m, Some d] \<Rightarrow> numToString d | _ \<Rightarrow> ''?'')\<rparr>"

text \<open>The key of a date given by year, month and day.\<close>

definition dateKey :: "int \<Rightarrow> int \<Rightarrow> int \<Rightarrow> string" where
  "dateKey y m d =
     numToString y @ ''-'' @ padStart2 (numToString m) @ ''-'' @ padStart2 (numToString d)"

text \<open>The character of a decimal digit.\<close>

definition digitChar :: "nat \<Rightarrow> char" where
  "digitChar j = char_of (48 + j)"

text \<open>A point of a forecast with both temperatures and a description, the points of
  six instants around the end of a month, out of order, and a formatter that prints the
  day of the month: the data of the examples.\<close>

definition pointAt :: "int \<Rightarrow> real \<Rightarrow> real \<Rightarrow> string \<Rightarrow> forecast_item" where
  "pointAt t lo hi desc =
     \<lparr>dt = t,
      main = Some \<lparr>temp = None, temp_min = Some lo, temp_max = Some hi, feels_like = None,
        humidity = None\<rparr>,
      weather = Some [\<lparr>description = Some desc\<rparr>], pop = None\<rparr>"

definition monthEnd :: "forecast_item list" where
  "monthEnd =
     [pointAt 2764800 40 50 ''snow'', pointAt 2505600 41 51 ''rain'',
      pointAt 2678400 42 52 ''sun'', pointAt 2592000 43 53 ''fog'',
      pointAt 2851200 44 54 ''hail'', pointAt 2602800 39 49 ''fog'']"

definition dayOfMonth :: "int option list \<Rightarrow> string" where
  "dayOfMonth ymd = (case ymd of [y, m, Some d] \<Rightarrow> numToString d | _ \<Rightarrow> ''?'')"

text \<open>
  The words and commas of a place, for the statement about \<^verbatim>\<open>normalizePlace\<close>. A
  plain character is neither white space nor a comma; a word is a maximal run of plain
  characters. \<open>tokens\<close> reads the words and the commas of a string from left to right
  and passes over white space.
\<close>

definition isPlain :: "char \<Rightarrow> bool" where
  "isPlain c \<longleftrightarrow> \<not> is_ws c \<and> c \<noteq> CHR '',''"

datatype token = Word string | Comma

function tokens :: "string \<Rightarrow> token list" where
  "tokens [] = []"
| "tokens (c # cs) =
     (if is_ws c then tokens cs
      else if c = CHR '','' then Comma # tokens cs
      else Word (c # takeWhile isPlain cs) # tokens (dropWhile isPlain cs))"
  by pat_completeness auto
termination
proof (relation "measure length", goal_cases)
  case 1
  show ?case by simp
next
  case (2 c cs)
  show ?case by simp
next
  case (3 c cs)
  show ?case by simp
next
  case (4 c cs)
  have "length (dropWhile isPlain cs) \<le> length cs"
    by (rule length_dropWhile_le)
  then show ?case by simp
qed

text \<open>
  \<open>render\<close> writes a list of words and commas out: a comma as \<open>, \<close>, a word as itself,
  and one space between two words that follow each other.
\<close>

fun startsWord :: "token list \<Rightarrow> bool" where
  "startsWord (Word w # ts) = True"
| "startsWord ts = False"

fun render :: "token list \<Rightarrow> string" where
  "render [] = []"
| "render (Comma # ts) = '', '' @ render ts"
| "render (Word w # ts) = w @ (if startsWord ts then '' '' else []) @ render ts"

text \<open>The space that the two replacements leave for white space at the start of \<open>t\<close>
  that is not followed by a comma.\<close>

definition gap :: "string \<Rightarrow> string" where
  "gap t = (case t of [] \<Rightarrow> [] | c # cs \<Rightarrow> if is_ws c \<and> \<not> comma_next cs then '' '' else [])"

section \<open>The place normalizer\<close>

lemma ws_comma [simp]: "\<not> is_ws CHR '',''" by (simp add: is_ws_def)
lemma ws_space [simp]: "is_ws CHR '' ''" by (simp add: is_ws_def)

lemma no_lead_simps [simp]: "no_lead []" "no_lead (c # cs) = (\<not> is_ws c)"
  by (simp_all add: no_lead_def)

lemma no_lead_dropWhile [simp]: "no_lead (dropWhile is_ws s)"
  by (induction s) simp_all

lemma dropWhile_no_lead: "no_lead s \<Longrightarrow> dropWhile is_ws s = s"
  by (cases s) simp_all

lemma rc_comma: "replaceCommas (CHR '','' # cs) = '', '' @ replaceCommas (dropWhile is_ws cs)"
  by simp

lemma rc_plain: "\<not> is_ws c \<Longrightarrow> c \<noteq> CHR '','' \<Longrightarrow> replaceCommas (c # cs) = c # replaceCommas cs"
  by simp

lemma rc_ws_comma:
  "is_ws c \<Longrightarrow> dropWhile is_ws cs = CHR '','' # ds \<Longrightarrow>
   replaceCommas (c # cs) = '', '' @ replaceCommas (dropWhile is_ws ds)"
  by simp


lemma comma_next_simps [simp]:
  "\<not> comma_next []"
  "is_ws c \<Longrightarrow> comma_next (c # cs) = comma_next cs"
  "\<not> is_ws c \<Longrightarrow> comma_next (c # cs) = (c = CHR '','')"
  by (simp_all add: comma_next_def)

lemma rc_ws_other:
  "is_ws c \<Longrightarrow> \<not> comma_next cs \<Longrightarrow> replaceCommas (c # cs) = c # replaceCommas cs"
  by (cases "dropWhile is_ws cs") (simp_all add: comma_next_def del: dropWhile_eq_Nil_conv)

lemma rc_ws_comma':
  "is_ws c \<Longrightarrow> comma_next cs \<Longrightarrow>
   replaceCommas (c # cs) = '', '' @ replaceCommas (dropWhile is_ws (tl (dropWhile is_ws cs)))"
  by (cases "dropWhile is_ws cs") (simp_all add: comma_next_def del: dropWhile_eq_Nil_conv)

lemma rc_no_lead: "no_lead t \<Longrightarrow> no_lead (replaceCommas t)"
  by (cases t) (simp_all split: list.splits)

lemma dW_rc:
  "\<not> comma_next cs \<Longrightarrow> dropWhile is_ws (replaceCommas cs) = replaceCommas (dropWhile is_ws cs)"
proof (induction cs)
  case Nil
  show ?case by simp
next
  case (Cons a as)
  show ?case
  proof (cases "is_ws a")
    case True
    with Cons.prems have nc: "\<not> comma_next as" by simp
    from True nc have "replaceCommas (a # as) = a # replaceCommas as"
      by (rule rc_ws_other)
    with True Cons.IH [OF nc] show ?thesis by simp
  next
    case False
    with Cons.prems have "a \<noteq> CHR '',''" by simp
    with False have "replaceCommas (a # as) = a # replaceCommas as"
      by (rule rc_plain)
    with False show ?thesis by simp
  qed
qed

lemma sq_Nil [simp]: "squeeze [] = []" by (simp add: squeeze_def)

lemma sq_after_comma:
  "replaceSpaces ('', '' @ replaceCommas (dropWhile is_ws cs)) = '', '' @ squeeze (dropWhile is_ws cs)"
proof -
  have "no_lead (replaceCommas (dropWhile is_ws cs))"
    by (rule rc_no_lead) simp
  then have "dropWhile is_ws (replaceCommas (dropWhile is_ws cs)) = replaceCommas (dropWhile is_ws cs)"
    by (rule dropWhile_no_lead)
  then show ?thesis by (simp add: squeeze_def)
qed

lemma sq_comma: "squeeze (CHR '','' # cs) = '', '' @ squeeze (dropWhile is_ws cs)"
  unfolding squeeze_def [of "CHR '','' # cs"] rc_comma by (rule sq_after_comma)

lemma sq_plain: "\<not> is_ws c \<Longrightarrow> c \<noteq> CHR '','' \<Longrightarrow> squeeze (c # cs) = c # squeeze cs"
  by (simp add: squeeze_def)

lemma sq_ws_comma:
  "is_ws c \<Longrightarrow> comma_next cs \<Longrightarrow>
   squeeze (c # cs) = '', '' @ squeeze (dropWhile is_ws (tl (dropWhile is_ws cs)))"
  unfolding squeeze_def [of "c # cs"] by (simp only: rc_ws_comma' sq_after_comma)

lemma sq_ws_other:
  "is_ws c \<Longrightarrow> \<not> comma_next cs \<Longrightarrow> squeeze (c # cs) = CHR '' '' # squeeze (dropWhile is_ws cs)"
  by (simp add: squeeze_def rc_ws_other dW_rc del: replaceCommas.simps)

lemma sq_no_lead: "no_lead t \<Longrightarrow> no_lead (squeeze t)"
proof (cases t)
  case Nil
  then show ?thesis by simp
next
  case (Cons c cs)
  assume "no_lead t"
  with Cons have "\<not> is_ws c" by simp
  then show ?thesis unfolding Cons
    by (cases "c = CHR '',''") (simp_all add: sq_comma sq_plain)
qed

lemma no_trail_Cons: "no_trail (c # cs) \<Longrightarrow> no_trail cs"
  by (cases cs rule: rev_cases) (simp_all add: no_trail_def)

lemma no_trail_dropWhile: "no_trail cs \<Longrightarrow> no_trail (dropWhile is_ws cs)"
  by (induction cs) (auto dest: no_trail_Cons)

lemma no_trail_tl: "no_trail cs \<Longrightarrow> no_trail (tl cs)"
  by (cases cs) (auto dest: no_trail_Cons)

lemma no_trail_ws: "no_trail (c # cs) \<Longrightarrow> is_ws c \<Longrightarrow> dropWhile is_ws cs \<noteq> []"
proof (induction cs arbitrary: c)
  case Nil
  then show ?case by (simp add: no_trail_def)
next
  case (Cons a as)
  show ?case
  proof (cases "is_ws a")
    case True
    from Cons.prems(1) have "no_trail (a # as)" by (rule no_trail_Cons)
    from Cons.IH [OF this True] True show ?thesis by simp
  next
    case False
    then show ?thesis by simp
  qed
qed

lemma tight_squeeze: "no_trail t \<Longrightarrow> tight (squeeze t)"
proof (induction t rule: length_induct)
  case (1 t)
  show ?case
  proof (cases t)
    case Nil
    then show ?thesis by simp
  next
    case (Cons c cs)
    have nt: "no_trail cs" using 1(2) Cons by (auto dest: no_trail_Cons)
    have len: "length (dropWhile is_ws xs) \<le> length xs" for xs
      by (rule length_dropWhile_le)
    consider (comma) "c = CHR '',''" | (plain) "\<not> is_ws c" "c \<noteq> CHR '',''"
      | (wsc) "is_ws c" "comma_next cs" | (wso) "is_ws c" "\<not> comma_next cs"
      by blast
    then show ?thesis
    proof cases
      case comma
      let ?r = "dropWhile is_ws cs"
      have "length ?r < length t" using len [of cs] Cons by simp
      moreover have "no_trail ?r" using nt by (rule no_trail_dropWhile)
      ultimately have t: "tight (squeeze ?r)" using 1(1) by blast
      have "no_lead (squeeze ?r)" by (rule sq_no_lead) simp
      with t show ?thesis unfolding Cons comma sq_comma
        by (simp add: no_lead_def split: list.splits)
    next
      case plain
      have "tight (squeeze cs)" using 1(1) nt Cons by simp
      with plain show ?thesis unfolding Cons by (simp add: sq_plain)
    next
      case wsc
      let ?r = "dropWhile is_ws (tl (dropWhile is_ws cs))"
      have "length (tl (dropWhile is_ws cs)) \<le> length cs" using len [of cs] by simp
      then have "length ?r < length t" using len [of "tl (dropWhile is_ws cs)"] Cons by simp
      moreover have "no_trail ?r" using nt by (intro no_trail_dropWhile no_trail_tl)
      ultimately have t: "tight (squeeze ?r)" using 1(1) by blast
      have "no_lead (squeeze ?r)" by (rule sq_no_lead) simp
      with t show ?thesis unfolding Cons sq_ws_comma [OF wsc]
        by (simp add: no_lead_def split: list.splits)
    next
      case wso
      let ?r = "dropWhile is_ws cs"
      have "length ?r < length t" using len [of cs] Cons by simp
      moreover have ntr: "no_trail ?r" using nt by (rule no_trail_dropWhile)
      ultimately have t: "tight (squeeze ?r)" using 1(1) by blast
      have ne: "?r \<noteq> []" using 1(2) wso(1) unfolding Cons by (rule no_trail_ws)
      then obtain d ds where r: "?r = d # ds" by (cases ?r) auto
      have "no_lead ?r" by simp
      then have d: "\<not> is_ws d" unfolding r by simp
      have "d \<noteq> CHR '',''" using wso(2) r by (simp add: comma_next_def)
      with d have "squeeze ?r = d # squeeze ds" unfolding r by (rule sq_plain)
      with t d \<open>d \<noteq> CHR '',''\<close> show ?thesis unfolding Cons sq_ws_other [OF wso]
        by simp
    qed
  qed
qed


lemma trimEnd_Nil [simp]: "trimEnd [] = []" by (simp add: trimEnd_def)

lemma trimEnd_Cons:
  "trimEnd (c # cs) = (if is_ws c \<and> trimEnd cs = [] then [] else c # trimEnd cs)"
  by (auto simp: trimEnd_def dropWhile_append)

lemma trimEnd_plain [simp]: "\<not> is_ws c \<Longrightarrow> trimEnd (c # cs) = c # trimEnd cs"
  by (simp add: trimEnd_Cons)

lemma no_lead_trimEnd: "no_lead t \<Longrightarrow> no_lead (trimEnd t)"
  by (cases t) simp_all

lemma no_trail_trimEnd: "no_trail (trimEnd t)"
proof -
  have "no_lead (dropWhile is_ws (rev t))" by simp
  then show ?thesis by (simp add: no_trail_def trimEnd_def no_lead_def)
qed

lemma no_lead_trim: "no_lead (trim s)"
  unfolding trim_def by (rule no_lead_trimEnd) simp

lemma no_trail_trim: "no_trail (trim s)"
  unfolding trim_def by (rule no_trail_trimEnd)

lemma squeeze_trimEnd_tight: "tight u \<Longrightarrow> squeeze (trimEnd u) = u"
proof (induction u rule: length_induct)
  case (1 u)
  show ?case
  proof (cases u)
    case Nil
    then show ?thesis by simp
  next
    case (Cons c cs)
    consider (comma) "c = CHR '',''" | (ws) "is_ws c" | (plain) "\<not> is_ws c" "c \<noteq> CHR '',''"
      by blast
    then show ?thesis
    proof cases
      case comma
      from 1(2) obtain ds where cs: "cs = CHR '' '' # ds" and tds: "tight ds"
        and nl: "no_lead ds"
        unfolding Cons comma by (auto simp: no_lead_def split: list.splits)
      have ih: "squeeze (trimEnd ds) = ds" using 1(1) tds Cons cs by simp
      show ?thesis
      proof (cases ds)
        case Nil
        then show ?thesis unfolding Cons comma cs by (simp add: trimEnd_Cons sq_comma)
      next
        case (Cons e es)
        with nl have e: "\<not> is_ws e" by simp
        have te: "trimEnd ds = e # trimEnd es" unfolding Cons using e by simp
        have "trimEnd (CHR '','' # CHR '' '' # ds) = CHR '','' # CHR '' '' # trimEnd ds"
          by (simp add: trimEnd_Cons te)
        moreover have "dropWhile is_ws (CHR '' '' # trimEnd ds) = trimEnd ds"
          using e by (simp add: te)
        ultimately show ?thesis unfolding \<open>u = c # cs\<close> comma cs
          by (simp add: sq_comma ih)
      qed
    next
      case ws
      with 1(2) have c: "c = CHR '' ''" unfolding Cons by (simp split: if_splits)
      from 1(2) ws obtain d ds where cs: "cs = d # ds" and d: "\<not> is_ws d" "d \<noteq> CHR '',''"
        and tcs: "tight cs"
        unfolding Cons by (auto split: if_splits list.splits)
      have ih: "squeeze (trimEnd cs) = cs" using 1(1) tcs Cons by simp
      have te: "trimEnd cs = d # trimEnd ds" unfolding cs using d by simp
      have t: "trimEnd (c # cs) = c # trimEnd cs" by (simp add: trimEnd_Cons te)
      have nc: "\<not> comma_next (trimEnd cs)" unfolding te using d by simp
      have dw: "dropWhile is_ws (trimEnd cs) = trimEnd cs" unfolding te using d by simp
      have "squeeze (trimEnd (c # cs)) = CHR '' '' # cs"
        unfolding t sq_ws_other [OF ws nc] dw ih ..
      then show ?thesis unfolding Cons c .
    next
      case plain
      from 1(2) plain have tcs: "tight cs" unfolding Cons by simp
      have ih: "squeeze (trimEnd cs) = cs" using 1(1) tcs Cons by simp
      show ?thesis unfolding Cons using plain by (simp add: sq_plain ih)
    qed
  qed
qed

lemma normalizePlace_squeeze: "normalizePlace s = squeeze (trim s)"
  by (simp add: normalizePlace_def squeeze_def)

lemma tight_normalizePlace: "tight (normalizePlace s)"
  unfolding normalizePlace_squeeze by (rule tight_squeeze) (rule no_trail_trim)

lemma no_lead_normalizePlace: "no_lead (normalizePlace s)"
  unfolding normalizePlace_squeeze by (rule sq_no_lead) (rule no_lead_trim)

lemma normalizePlace_idem: "normalizePlace (normalizePlace s) = normalizePlace s"
proof -
  let ?u = "normalizePlace s"
  have "dropWhile is_ws ?u = ?u"
    by (rule dropWhile_no_lead) (rule no_lead_normalizePlace)
  then have "normalizePlace ?u = squeeze (trimEnd ?u)"
    by (simp add: normalizePlace_squeeze [of ?u] trim_def)
  also have "\<dots> = ?u"
    by (rule squeeze_trimEnd_tight) (rule tight_normalizePlace)
  finally show ?thesis .
qed

text \<open>Characters other than white space are kept, in order.\<close>

lemma filter_dropWhile_ws: "filter (\<lambda>c. \<not> is_ws c) (dropWhile is_ws s) = filter (\<lambda>c. \<not> is_ws c) s"
  by (induction s) simp_all

lemma filter_trimEnd: "filter (\<lambda>c. \<not> is_ws c) (trimEnd s) = filter (\<lambda>c. \<not> is_ws c) s"
  by (induction s) (auto simp: trimEnd_Cons filter_empty_conv)

lemma filter_squeeze: "filter (\<lambda>c. \<not> is_ws c) (squeeze t) = filter (\<lambda>c. \<not> is_ws c) t"
proof (induction t rule: length_induct)
  case (1 t)
  show ?case
  proof (cases t)
    case Nil
    then show ?thesis by simp
  next
    case (Cons c cs)
    have len: "length (dropWhile is_ws xs) \<le> length xs" for xs
      by (rule length_dropWhile_le)
    consider (comma) "c = CHR '',''" | (plain) "\<not> is_ws c" "c \<noteq> CHR '',''"
      | (wsc) "is_ws c" "comma_next cs" | (wso) "is_ws c" "\<not> comma_next cs"
      by blast
    then show ?thesis
    proof cases
      case comma
      have "length (dropWhile is_ws cs) < length t" using len [of cs] Cons by simp
      with 1 have "filter (\<lambda>c. \<not> is_ws c) (squeeze (dropWhile is_ws cs))
          = filter (\<lambda>c. \<not> is_ws c) (dropWhile is_ws cs)" by blast
      then show ?thesis unfolding Cons comma sq_comma by (simp add: filter_dropWhile_ws)
    next
      case plain
      then show ?thesis unfolding Cons using 1 Cons by (simp add: sq_plain)
    next
      case wsc
      let ?r = "dropWhile is_ws (tl (dropWhile is_ws cs))"
      from wsc(2) obtain ds where ds: "dropWhile is_ws cs = CHR '','' # ds"
        by (auto simp: comma_next_def split: list.splits)
      have "length (tl (dropWhile is_ws cs)) \<le> length cs" using len [of cs] by simp
      then have "length ?r < length t" using len [of "tl (dropWhile is_ws cs)"] Cons by simp
      with 1 have "filter (\<lambda>c. \<not> is_ws c) (squeeze ?r) = filter (\<lambda>c. \<not> is_ws c) ?r" by blast
      also have "\<dots> = filter (\<lambda>c. \<not> is_ws c) ds" by (simp add: ds filter_dropWhile_ws)
      finally have a: "filter (\<lambda>c. \<not> is_ws c) (squeeze ?r) = filter (\<lambda>c. \<not> is_ws c) ds" .
      have "filter (\<lambda>c. \<not> is_ws c) cs = filter (\<lambda>c. \<not> is_ws c) (CHR '','' # ds)"
        unfolding ds [symmetric] by (simp add: filter_dropWhile_ws)
      then show ?thesis unfolding Cons sq_ws_comma [OF wsc] using a wsc(1) by simp
    next
      case wso
      have "length (dropWhile is_ws cs) < length t" using len [of cs] Cons by simp
      with 1 have "filter (\<lambda>c. \<not> is_ws c) (squeeze (dropWhile is_ws cs))
          = filter (\<lambda>c. \<not> is_ws c) (dropWhile is_ws cs)" by blast
      then show ?thesis unfolding Cons sq_ws_other [OF wso] using wso(1)
        by (simp add: filter_dropWhile_ws)
    qed
  qed
qed

lemma filter_normalizePlace: "filter (\<lambda>c. \<not> is_ws c) (normalizePlace s) = filter (\<lambda>c. \<not> is_ws c) s"
  by (simp add: normalizePlace_squeeze filter_squeeze trim_def filter_trimEnd filter_dropWhile_ws)

text \<open>The result as the words and commas of the input, written out.\<close>

lemma tokens_dropWhile_ws: "tokens (dropWhile is_ws s) = tokens s"
  by (induction s) simp_all

lemma takeWhile_plain_trimEnd: "takeWhile isPlain (trimEnd cs) = takeWhile isPlain cs"
  by (induction cs) (simp_all add: trimEnd_Cons isPlain_def)

lemma dropWhile_plain_trimEnd: "dropWhile isPlain (trimEnd cs) = trimEnd (dropWhile isPlain cs)"
  by (induction cs) (simp_all add: trimEnd_Cons isPlain_def)

lemma tokens_trimEnd: "tokens (trimEnd s) = tokens s"
proof (induction s rule: tokens.induct)
  case 1
  show ?case by simp
next
  case (2 c cs)
  show ?case
  proof (cases "is_ws c")
    case True
    with 2 have i: "tokens (trimEnd cs) = tokens cs" by simp
    show ?thesis
    proof (cases "trimEnd cs = []")
      case e: True
      with i have "tokens cs = []" by simp
      with True e show ?thesis by (simp add: trimEnd_Cons)
    next
      case False
      with True i show ?thesis by (simp add: trimEnd_Cons)
    qed
  next
    case False
    with 2 show ?thesis
      by (simp add: takeWhile_plain_trimEnd dropWhile_plain_trimEnd)
  qed
qed

lemma tokens_trim: "tokens (trim s) = tokens s"
  by (simp add: trim_def tokens_trimEnd tokens_dropWhile_ws)

lemma sq_word:
  "\<forall>c \<in> set w. isPlain c \<Longrightarrow> squeeze (w @ rest) = w @ squeeze rest"
  by (induction w) (simp_all add: sq_plain isPlain_def)

lemma no_trail_suffix: "no_trail (a @ b) \<Longrightarrow> no_trail b"
  by (cases b rule: rev_cases) (simp_all add: no_trail_def)

lemma gap_no_lead: "no_lead t \<Longrightarrow> gap t = []"
  by (cases t) (simp_all add: gap_def)

lemma gap_startsWord:
  assumes "no_trail rest" and "rest = [] \<or> \<not> isPlain (hd rest)"
  shows "gap rest = (if startsWord (tokens rest) then '' '' else [])"
proof (cases rest)
  case Nil
  then show ?thesis by (simp add: gap_def)
next
  case (Cons c cs)
  show ?thesis
  proof (cases "is_ws c")
    case False
    with assms Cons have "c = CHR '',''" by (simp add: isPlain_def)
    then show ?thesis using Cons by (simp add: gap_def)
  next
    case True
    have "no_trail (c # cs)" using assms(1) Cons by simp
    then have ne: "dropWhile is_ws cs \<noteq> []" using True by (rule no_trail_ws)
    then obtain d ds where d: "dropWhile is_ws cs = d # ds" by (cases "dropWhile is_ws cs") auto
    have nd: "\<not> is_ws d" using d by (metis hd_dropWhile list.sel(1) ne)
    have t: "tokens cs = tokens (d # ds)"
      using d tokens_dropWhile_ws [of cs] by simp
    have cn: "comma_next cs = (d = CHR '','')" by (simp add: comma_next_def d)
    show ?thesis using Cons True nd by (simp add: gap_def t cn)
  qed
qed

lemma squeeze_render:
  "no_trail t \<Longrightarrow> squeeze t = gap t @ render (tokens t)"
proof (induction "length t" arbitrary: t rule: less_induct)
  case less
  show ?case
  proof (cases t)
    case Nil
    then show ?thesis by (simp add: gap_def)
  next
    case (Cons c cs)
    have len: "length (dropWhile is_ws cs) < length t"
      using Cons length_dropWhile_le [of is_ws cs] by simp
    consider (comma) "c = CHR '',''" | (plain) "isPlain c"
      | (wc) "is_ws c" "comma_next cs" | (wo) "is_ws c" "\<not> comma_next cs"
      by (auto simp: isPlain_def)
    then show ?thesis
    proof cases
      case comma
      have "no_trail (dropWhile is_ws cs)"
        using less.prems Cons by (simp add: no_trail_Cons no_trail_dropWhile)
      from less.hyps [OF len this]
      have "squeeze (dropWhile is_ws cs) = render (tokens cs)"
        by (simp add: gap_no_lead tokens_dropWhile_ws)
      then show ?thesis using Cons comma by (simp add: sq_comma gap_def)
    next
      case plain
      let ?w = "c # takeWhile isPlain cs"
      let ?rest = "dropWhile isPlain cs"
      have pc: "\<not> is_ws c" "c \<noteq> CHR '',''" using plain by (simp_all add: isPlain_def)
      have t: "t = ?w @ ?rest" using Cons by simp
      have w: "\<forall>x \<in> set ?w. isPlain x" using plain by (auto dest: set_takeWhileD)
      have nt: "no_trail ?rest" using less.prems t no_trail_suffix by metis
      have l: "length ?rest < length t" using Cons length_dropWhile_le [of isPlain cs] by simp
      have h: "?rest = [] \<or> \<not> isPlain (hd ?rest)" by (metis hd_dropWhile)
      have "squeeze t = ?w @ squeeze ?rest"
        using sq_word [OF w, of ?rest] t by simp
      also have "squeeze ?rest = gap ?rest @ render (tokens ?rest)"
        by (rule less.hyps [OF l nt])
      also have "gap ?rest = (if startsWord (tokens ?rest) then '' '' else [])"
        by (rule gap_startsWord [OF nt h])
      finally show ?thesis using Cons pc by (simp add: gap_def)
    next
      case wc
      from wc(2) obtain ds where d: "dropWhile is_ws cs = CHR '','' # ds"
        by (cases "dropWhile is_ws cs") (simp_all add: comma_next_def del: dropWhile_eq_Nil_conv)
      have l: "length (dropWhile is_ws ds) < length t"
        using len d length_dropWhile_le [of is_ws ds] by simp
      have "no_trail (dropWhile is_ws cs)"
        using less.prems Cons by (simp add: no_trail_Cons no_trail_dropWhile)
      then have "no_trail (dropWhile is_ws ds)"
        unfolding d by (simp add: no_trail_Cons no_trail_dropWhile)
      from less.hyps [OF l this]
      have "squeeze (dropWhile is_ws ds) = render (tokens ds)"
        by (simp add: gap_no_lead tokens_dropWhile_ws)
      moreover have "tokens t = Comma # tokens ds"
        using Cons wc(1) tokens_dropWhile_ws [of cs] d by simp
      ultimately show ?thesis using Cons wc d by (simp add: sq_ws_comma gap_def)
    next
      case wo
      have "no_trail (dropWhile is_ws cs)"
        using less.prems Cons by (simp add: no_trail_Cons no_trail_dropWhile)
      from less.hyps [OF len this]
      have "squeeze (dropWhile is_ws cs) = render (tokens cs)"
        by (simp add: gap_no_lead tokens_dropWhile_ws)
      then show ?thesis using Cons wo by (simp add: sq_ws_other gap_def)
    qed
  qed
qed

lemma normalizePlace_render: "normalizePlace s = render (tokens s)"
  by (simp add: normalizePlace_squeeze squeeze_render no_trail_trim gap_no_lead no_lead_trim
      tokens_trim)

lemma tokens_ws: "list_all is_ws w \<Longrightarrow> tokens (w @ rest) = tokens rest"
  by (induction w) simp_all

lemma tokens_word:
  assumes "u \<noteq> []" and "list_all isPlain u" and "rest = [] \<or> \<not> isPlain (hd rest)"
  shows "tokens (u @ rest) = Word u # tokens rest"
proof -
  from assms(1) obtain c u' where u: "u = c # u'" by (cases u) auto
  have p: "\<forall>x \<in> set u'. isPlain x" using assms(2) u by (simp add: list_all_iff)
  have r: "takeWhile isPlain rest = []" "dropWhile isPlain rest = rest"
    using assms(3) by (cases rest; simp)+
  have "takeWhile isPlain (u' @ rest) = u'" "dropWhile isPlain (u' @ rest) = rest"
    using p r by (simp_all add: takeWhile_append2 dropWhile_append2)
  moreover have "\<not> is_ws c" "c \<noteq> CHR '',''" using assms(2) u by (simp_all add: isPlain_def)
  ultimately show ?thesis using u by simp
qed

lemma tokens_one_word: "u \<noteq> [] \<Longrightarrow> list_all isPlain u \<Longrightarrow> tokens u = [Word u]"
  using tokens_word [of u "[]"] by simp

lemma trimEnd_ws:
  assumes "list_all is_ws w"
  shows "trimEnd (s @ w) = trimEnd s"
proof -
  have "dropWhile is_ws (rev w @ rev s) = dropWhile is_ws (rev s)"
    using assms by (intro dropWhile_append2) (simp add: list_all_iff)
  then show ?thesis by (simp add: trimEnd_def)
qed

lemma tokens_ws_end: "list_all is_ws w \<Longrightarrow> tokens (s @ w) = tokens s"
  using tokens_trimEnd [of "s @ w"] tokens_trimEnd [of s] by (simp add: trimEnd_ws)

lemma normalizePlace_two_words:
  assumes "u \<noteq> []" "v \<noteq> []" "list_all isPlain u" "list_all isPlain v" "list_all is_ws w" "w \<noteq> []"
  shows "normalizePlace (u @ w @ v) = u @ '' '' @ v"
proof -
  have "\<not> isPlain (hd (w @ v))" using assms(5,6) by (cases w) (simp_all add: isPlain_def)
  then have "tokens (u @ w @ v) = Word u # tokens (w @ v)"
    using assms by (intro tokens_word) simp_all
  also have "tokens (w @ v) = [Word v]"
    using assms by (simp add: tokens_ws tokens_one_word)
  finally show ?thesis by (simp add: normalizePlace_render)
qed

lemma normalizePlace_comma_between:
  assumes "u \<noteq> []" "v \<noteq> []" "list_all isPlain u" "list_all isPlain v" "list_all is_ws w"
    "list_all is_ws w'"
  shows "normalizePlace (u @ w @ '','' @ w' @ v) = u @ '', '' @ v"
proof -
  let ?rest = "w @ CHR '','' # w' @ v"
  have c: "tokens ?rest = [Comma, Word v]"
    using assms by (simp add: tokens_ws tokens_one_word)
  have "\<not> isPlain (hd ?rest)"
    using assms(5) by (cases w) (simp_all add: isPlain_def)
  then have "tokens (u @ ?rest) = Word u # tokens ?rest"
    using assms by (intro tokens_word) simp_all
  then show ?thesis by (simp add: normalizePlace_render c)
qed

lemma normalizePlace_ends:
  assumes "list_all is_ws w" "list_all is_ws w'"
  shows "normalizePlace (w @ s @ w') = normalizePlace s"
  using assms tokens_ws [of w "s @ w'"] tokens_ws_end [of w' s]
  by (simp add: normalizePlace_render)

text \<open>
  C6. \<^verbatim>\<open>normalizePlace\<close> is idempotent: normalizing a normalized place changes nothing.
  Its result has no white space at the start, every comma in it is followed by exactly
  one space, every other run of white space is one space, and the characters that are not
  white space are those of the input, unchanged and in order (no change of case). The
  result is the words and commas of the input written out again: a comma as \<open>, \<close>, one
  space between two words that follow each other, nothing else. So white space at the two
  ends of the input has no effect, a run of white space between two words becomes one
  space, and a comma between two words, with any white space around it, becomes \<open>, \<close>.
  In particular \<open>Seattle,  WA\<close> and \<open>Seattle, WA\<close> both normalize to \<open>Seattle, WA\<close>.
\<close>

theorem normalizePlace_idempotent:
  "normalizePlace (normalizePlace s) = normalizePlace s \<and>
   tight (normalizePlace s) \<and> no_lead (normalizePlace s) \<and>
   filter (\<lambda>c. \<not> is_ws c) (normalizePlace s) = filter (\<lambda>c. \<not> is_ws c) s \<and>
   normalizePlace s = render (tokens s) \<and>
   (list_all is_ws w \<and> list_all is_ws w' \<longrightarrow>
      normalizePlace (w @ s @ w') = normalizePlace s) \<and>
   (u \<noteq> [] \<and> v \<noteq> [] \<and> list_all isPlain u \<and> list_all isPlain v \<and>
    list_all is_ws w \<and> w \<noteq> [] \<longrightarrow>
      normalizePlace (u @ w @ v) = u @ '' '' @ v) \<and>
   (u \<noteq> [] \<and> v \<noteq> [] \<and> list_all isPlain u \<and> list_all isPlain v \<and>
    list_all is_ws w \<and> list_all is_ws w' \<longrightarrow>
      normalizePlace (u @ w @ '','' @ w' @ v) = u @ '', '' @ v) \<and>
   normalizePlace ''Seattle,  WA'' = ''Seattle, WA'' \<and>
   normalizePlace ''Seattle, WA'' = ''Seattle, WA'' \<and>
   normalizePlace ''San  Jose'' = ''San Jose''"
proof -
  have "normalizePlace ''Seattle,  WA'' = ''Seattle, WA''"
    by (simp add: normalizePlace_def trim_def trimEnd_def is_ws_def)
  moreover have "normalizePlace ''Seattle, WA'' = ''Seattle, WA''"
    by (simp add: normalizePlace_def trim_def trimEnd_def is_ws_def)
  moreover have "normalizePlace ''San  Jose'' = ''San Jose''"
    by (simp add: normalizePlace_def trim_def trimEnd_def is_ws_def)
  ultimately show ?thesis
    using normalizePlace_idem [of s] tight_normalizePlace [of s] no_lead_normalizePlace [of s]
      filter_normalizePlace [of s] normalizePlace_render [of s]
      normalizePlace_ends [of w w' s] normalizePlace_two_words [of u v w]
      normalizePlace_comma_between [of u v w w']
    by blast
qed

theorem normalizePlace_idempotent_witness:
  "normalizePlace '' Houston ,TX'' = ''Houston, TX'' \<and>
   normalizePlace (normalizePlace '' Houston ,TX'') = ''Houston, TX'' \<and>
   tight ''Houston, TX'' \<and>
   tokens '' Houston ,TX'' = [Word ''Houston'', Comma, Word ''TX''] \<and>
   render [Word ''Houston'', Comma, Word ''TX''] = ''Houston, TX'' \<and>
   normalizePlace ([CHR 0x09, CHR '' ''] @ '' Houston ,TX'' @ [CHR 0x0A]) = ''Houston, TX'' \<and>
   normalizePlace (''San'' @ [CHR '' '', CHR 0x09, CHR 0xA0] @ ''Jose'') = ''San Jose'' \<and>
   normalizePlace (''Austin'' @ [CHR 0x09] @ '','' @ [CHR '' '', CHR '' ''] @ ''tx'') = ''Austin, tx''"
proof -
  have e: "normalizePlace '' Houston ,TX'' = ''Houston, TX''"
    by (simp add: normalizePlace_def trim_def trimEnd_def is_ws_def)
  have t: "tokens '' Houston ,TX'' = [Word ''Houston'', Comma, Word ''TX'']"
    by (simp add: is_ws_def isPlain_def)
  have r: "render [Word ''Houston'', Comma, Word ''TX''] = ''Houston, TX''"
    by simp
  have w1: "list_all is_ws [CHR 0x09, CHR '' '']" "list_all is_ws [CHR 0x0A]"
    "list_all is_ws [CHR '' '', CHR 0x09, CHR 0xA0]" "list_all is_ws [CHR 0x09]"
    "list_all is_ws [CHR '' '', CHR '' '']"
    by (simp_all add: is_ws_def)
  have p: "list_all isPlain ''San''" "list_all isPlain ''Jose''"
    "list_all isPlain ''Austin''" "list_all isPlain ''tx''"
    by (simp_all add: is_ws_def isPlain_def)
  have "normalizePlace (normalizePlace '' Houston ,TX'') = normalizePlace '' Houston ,TX''"
    and "tight (normalizePlace '' Houston ,TX'')"
    and "normalizePlace '' Houston ,TX'' = render (tokens '' Houston ,TX'')"
    and "normalizePlace ([CHR 0x09, CHR '' ''] @ '' Houston ,TX'' @ [CHR 0x0A]) =
         normalizePlace '' Houston ,TX''"
    using normalizePlace_idempotent [where s = "'' Houston ,TX''" and w = "[CHR 0x09, CHR '' '']"
        and w' = "[CHR 0x0A]"] w1
    by blast+
  moreover have "normalizePlace (''San'' @ [CHR '' '', CHR 0x09, CHR 0xA0] @ ''Jose'') =
      ''San'' @ '' '' @ ''Jose''"
    using normalizePlace_idempotent [where u = "''San''" and v = "''Jose''"
        and w = "[CHR '' '', CHR 0x09, CHR 0xA0]"] w1 p
    by blast
  moreover have "normalizePlace (''Austin'' @ [CHR 0x09] @ '','' @ [CHR '' '', CHR '' ''] @ ''tx'') =
      ''Austin'' @ '', '' @ ''tx''"
    using normalizePlace_idempotent [where u = "''Austin''" and v = "''tx''"
        and w = "[CHR 0x09]" and w' = "[CHR '' '', CHR '' '']"] w1 p
    by blast
  ultimately show ?thesis using e t r by (simp only: simp_thms append.simps)
qed

section \<open>The country hint\<close>

lemma splitOn_ne [simp]: "splitOn sep s \<noteq> []"
  by (induction s) (auto split: list.splits)

lemma splitOn_no_sep: "p \<in> set (splitOn sep s) \<Longrightarrow> sep \<notin> set p"
proof (induction s arbitrary: p)
  case Nil
  then show ?case by simp
next
  case (Cons c cs)
  show ?case
  proof (cases "c = sep")
    case True
    with Cons show ?thesis by auto
  next
    case False
    obtain r rs where rs: "splitOn sep cs = r # rs"
      by (cases "splitOn sep cs") auto
    with False Cons.prems have "p = c # r \<or> p \<in> set rs" by auto
    then show ?thesis
    proof
      assume "p = c # r"
      moreover have "sep \<notin> set r" using Cons.IH [of r] rs by simp
      ultimately show ?thesis using False by auto
    next
      assume "p \<in> set rs"
      then show ?thesis using Cons.IH [of p] rs by simp
    qed
  qed
qed

lemma joinWith_Cons: "xs \<noteq> [] \<Longrightarrow> joinWith sep (x # xs) = x @ sep @ joinWith sep xs"
  by (cases xs) simp_all

lemma joinWith_splitOn: "joinWith [sep] (splitOn sep s) = s"
proof (induction s)
  case Nil
  show ?case by simp
next
  case (Cons c cs)
  obtain r rs where rs: "splitOn sep cs = r # rs"
    by (cases "splitOn sep cs") auto
  show ?case
  proof (cases "c = sep")
    case True
    then show ?thesis using Cons by (simp add: joinWith_Cons)
  next
    case False
    then show ?thesis using Cons rs by (cases rs) simp_all
  qed
qed

lemma commaParts_trimmed: "p \<in> set (commaParts q) \<Longrightarrow> p \<noteq> [] \<and> no_lead p \<and> no_trail p"
  by (auto simp: commaParts_def no_lead_trim no_trail_trim)

lemma toUpperChar_capital:
  "isAsciiLetter c \<Longrightarrow> CHR ''A'' \<le> toUpperChar c \<and> toUpperChar c \<le> CHR ''Z''"
  by (auto simp: isAsciiLetter_def toUpperChar_def Let_def less_eq_char_def)

lemma toUpperCase_capitals:
  "list_all isAsciiLetter st \<Longrightarrow> list_all (\<lambda>c. CHR ''A'' \<le> c \<and> c \<le> CHR ''Z'') (toUpperCase st)"
  by (induction st) (simp_all add: toUpperCase_def toUpperChar_capital)

lemma maybeAppendUS_hit:
  "commaParts q = [city, st] \<Longrightarrow> twoLetters st \<Longrightarrow>
   maybeAppendUS q = city @ '', '' @ toUpperCase st @ '', US''"
  by (simp add: maybeAppendUS_def)

lemma maybeAppendUS_miss:
  assumes "\<And>city st. commaParts q = [city, st] \<Longrightarrow> \<not> twoLetters st"
  shows "maybeAppendUS q = q"
proof (cases "length (commaParts q) = 2")
  case True
  then obtain city st where "commaParts q = [city, st]"
    by (auto simp: length_Suc_conv numeral_2_eq_2)
  with assms [of city st] show ?thesis by (simp add: maybeAppendUS_def)
next
  case False
  then show ?thesis by (simp add: maybeAppendUS_def)
qed

lemmas eval_defs = maybeAppendUS_def commaParts_def trim_def trimEnd_def is_ws_def twoLetters_def isAsciiLetter_def

lemma trimEnd_split: "\<exists>b. u = trimEnd u @ b \<and> list_all is_ws b"
proof (intro exI conjI)
  have "rev (takeWhile is_ws (rev u) @ dropWhile is_ws (rev u)) = u" by simp
  then have "rev (dropWhile is_ws (rev u)) @ rev (takeWhile is_ws (rev u)) = u"
    unfolding rev_append .
  then show "u = trimEnd u @ rev (takeWhile is_ws (rev u))"
    unfolding trimEnd_def by (rule sym)
  show "list_all is_ws (rev (takeWhile is_ws (rev u)))"
    by (auto simp: list_all_iff dest: set_takeWhileD)
qed

lemma trim_split:
  "\<exists>a b. p = a @ trim p @ b \<and> list_all is_ws a \<and> list_all is_ws b"
proof -
  obtain b where b: "dropWhile is_ws p = trimEnd (dropWhile is_ws p) @ b" "list_all is_ws b"
    using trimEnd_split [of "dropWhile is_ws p"] by blast
  have "p = takeWhile is_ws p @ dropWhile is_ws p" by simp
  with b(1) have "p = takeWhile is_ws p @ trim p @ b" by (simp add: trim_def)
  moreover have "list_all is_ws (takeWhile is_ws p)"
    by (auto simp: list_all_iff dest: set_takeWhileD)
  ultimately show ?thesis using b(2) by blast
qed

lemma twoLetters_iff:
  "twoLetters st \<longleftrightarrow>
     (\<exists>a b. st = [a, b] \<and>
        (CHR ''A'' \<le> a \<and> a \<le> CHR ''Z'' \<or> CHR ''a'' \<le> a \<and> a \<le> CHR ''z'') \<and>
        (CHR ''A'' \<le> b \<and> b \<le> CHR ''Z'' \<or> CHR ''a'' \<le> b \<and> b \<le> CHR ''z''))"
proof -
  have l: "isAsciiLetter c \<longleftrightarrow>
      CHR ''A'' \<le> c \<and> c \<le> CHR ''Z'' \<or> CHR ''a'' \<le> c \<and> c \<le> CHR ''z''" for c
    by (simp add: isAsciiLetter_def Let_def less_eq_char_def)
  have "length st = 2 \<longleftrightarrow> (\<exists>a b. st = [a, b])"
    by (auto simp: length_Suc_conv numeral_2_eq_2)
  then show ?thesis by (auto simp: twoLetters_def l)
qed

lemma toUpperCase_letters:
  "toUpperCase ''abcdefghijklmnopqrstuvwxyzABCDEFGHIJKLMNOPQRSTUVWXYZ'' =
     ''ABCDEFGHIJKLMNOPQRSTUVWXYZABCDEFGHIJKLMNOPQRSTUVWXYZ''"
  by code_simp

text \<open>
  C7. \<^verbatim>\<open>maybeAppendUS\<close> splits its input at the commas (the pieces hold no comma and
  give the input back when joined with commas), trims the pieces (white space goes at the
  two ends of a piece and nothing else) and drops the empty ones; what remains, all of it
  and in order, are the parts. If there are exactly two parts \<open>city\<close> and \<open>st\<close> and \<open>st\<close>
  is two ASCII letters, the result is \<open>city, ST, US\<close> with \<open>st\<close> in capitals; in every
  other case the result is the input. \<open>Austin, TX\<close> becomes \<open>Austin, TX, US\<close>, and
  \<open>Paris, France\<close> stays; so does a query of more than two parts whose second part is a
  state code.
\<close>

theorem maybeAppendUS_cases:
  "(commaParts q = [city, st] \<and> twoLetters st \<longrightarrow>
      maybeAppendUS q = city @ '', '' @ toUpperCase st @ '', US'') \<and>
   ((\<forall>city st. commaParts q = [city, st] \<longrightarrow> \<not> twoLetters st) \<longrightarrow> maybeAppendUS q = q) \<and>
   commaParts q = filter (\<lambda>p. p \<noteq> []) (map trim (splitOn CHR '','' q)) \<and>
   joinWith '','' (splitOn CHR '','' q) = q \<and>
   (\<forall>p \<in> set (splitOn CHR '','' q). CHR '','' \<notin> set p) \<and>
   (\<exists>a b. p = a @ trim p @ b \<and> list_all is_ws a \<and> list_all is_ws b) \<and>
   no_lead (trim p) \<and> no_trail (trim p) \<and>
   (\<forall>p \<in> set (commaParts q). p \<noteq> [] \<and> no_lead p \<and> no_trail p) \<and>
   (twoLetters st \<longleftrightarrow>
      (\<exists>a b. st = [a, b] \<and>
        (CHR ''A'' \<le> a \<and> a \<le> CHR ''Z'' \<or> CHR ''a'' \<le> a \<and> a \<le> CHR ''z'') \<and>
        (CHR ''A'' \<le> b \<and> b \<le> CHR ''Z'' \<or> CHR ''a'' \<le> b \<and> b \<le> CHR ''z''))) \<and>
   (twoLetters st \<longrightarrow> list_all (\<lambda>c. CHR ''A'' \<le> c \<and> c \<le> CHR ''Z'') (toUpperCase st)) \<and>
   toUpperCase ''abcdefghijklmnopqrstuvwxyzABCDEFGHIJKLMNOPQRSTUVWXYZ'' =
     ''ABCDEFGHIJKLMNOPQRSTUVWXYZABCDEFGHIJKLMNOPQRSTUVWXYZ'' \<and>
   maybeAppendUS ''Austin, TX'' = ''Austin, TX, US'' \<and>
   maybeAppendUS ''Paris, France'' = ''Paris, France'' \<and>
   maybeAppendUS ''a, tx, , d'' = ''a, tx, , d'' \<and>
   maybeAppendUS '' ,Austin,, tx ,'' = ''Austin, TX, US''"
proof -
  have f1: "commaParts q = [city, st] \<and> twoLetters st \<longrightarrow>
      maybeAppendUS q = city @ '', '' @ toUpperCase st @ '', US''"
    using maybeAppendUS_hit [of q city st] by blast
  have f2: "(\<forall>city st. commaParts q = [city, st] \<longrightarrow> \<not> twoLetters st) \<longrightarrow> maybeAppendUS q = q"
    using maybeAppendUS_miss [of q] by blast
  have f3: "\<forall>p \<in> set (splitOn CHR '','' q). CHR '','' \<notin> set p"
    using splitOn_no_sep [of _ "CHR '',''" q] by blast
  have f4: "\<forall>p \<in> set (commaParts q). p \<noteq> [] \<and> no_lead p \<and> no_trail p"
    using commaParts_trimmed [of _ q] by blast
  have f5: "twoLetters st \<longrightarrow> list_all (\<lambda>c. CHR ''A'' \<le> c \<and> c \<le> CHR ''Z'') (toUpperCase st)"
    using toUpperCase_capitals [of st] by (simp add: twoLetters_def)
  have f6: "joinWith '','' (splitOn CHR '','' q) = q"
    using joinWith_splitOn [of "CHR '',''" q] by simp
  have e1: "maybeAppendUS ''Austin, TX'' = ''Austin, TX, US''"
    by (simp add: eval_defs toUpperCase_def toUpperChar_def)
  have e2: "maybeAppendUS ''Paris, France'' = ''Paris, France''"
    by (simp add: eval_defs)
  have e3: "maybeAppendUS ''a, tx, , d'' = ''a, tx, , d''"
    by (simp add: eval_defs)
  have e4: "maybeAppendUS '' ,Austin,, tx ,'' = ''Austin, TX, US''"
    by code_simp
  show ?thesis
    by (intro conjI f1 f2 commaParts_def f6 f3 trim_split no_lead_trim no_trail_trim f4
        twoLetters_iff f5 toUpperCase_letters e1 e2 e3 e4)
qed

theorem maybeAppendUS_cases_witness:
  "commaParts ''Austin, tx'' = [''Austin'', ''tx''] \<and> twoLetters ''tx'' \<and>
   maybeAppendUS ''Austin, tx'' = ''Austin, TX, US'' \<and>
   maybeAppendUS ''Austin, Texas'' = ''Austin, Texas'' \<and>
   splitOn CHR '','' '' ,Austin,, tx ,'' = ['' '', ''Austin'', '''', '' tx '', ''''] \<and>
   commaParts '' ,Austin,, tx ,'' = [''Austin'', ''tx''] \<and>
   maybeAppendUS '' ,Austin,, tx ,'' = ''Austin, TX, US'' \<and>
   commaParts ''Austin, tx, , us'' = [''Austin'', ''tx'', ''us''] \<and>
   maybeAppendUS ''Austin, tx, , us'' = ''Austin, tx, , us''"
proof -
  have a: "commaParts ''Austin, tx'' = [''Austin'', ''tx'']"
    by (simp add: eval_defs)
  have b: "twoLetters ''tx''"
    by (simp add: eval_defs)
  have c: "toUpperCase ''tx'' = ''TX''"
    by code_simp
  have d: "commaParts ''Austin, Texas'' = [''Austin'', ''Texas'']"
    by (simp add: eval_defs)
  have e: "\<forall>city st. commaParts ''Austin, Texas'' = [city, st] \<longrightarrow> \<not> twoLetters st"
    unfolding d by (simp add: twoLetters_def)
  have s: "splitOn CHR '','' '' ,Austin,, tx ,'' = ['' '', ''Austin'', '''', '' tx '', '''']"
    by simp
  have t: "filter (\<lambda>p. p \<noteq> []) (map trim ['' '', ''Austin'', '''', '' tx '', '''']) =
      [''Austin'', ''tx'']"
    by (simp add: trim_def trimEnd_def is_ws_def)
  have "commaParts '' ,Austin,, tx ,'' =
      filter (\<lambda>p. p \<noteq> []) (map trim (splitOn CHR '','' '' ,Austin,, tx ,''))"
    using maybeAppendUS_cases [of "'' ,Austin,, tx ,''" "[]" "[]" "[]"] by blast
  then have f: "commaParts '' ,Austin,, tx ,'' = [''Austin'', ''tx'']"
    unfolding s t .
  have g: "commaParts ''Austin, tx, , us'' = [''Austin'', ''tx'', ''us'']"
    by (simp add: eval_defs)
  have h: "\<forall>city st. commaParts ''Austin, tx, , us'' = [city, st] \<longrightarrow> \<not> twoLetters st"
    unfolding g by simp
  have "maybeAppendUS ''Austin, tx'' = ''Austin'' @ '', '' @ toUpperCase ''tx'' @ '', US''"
    using maybeAppendUS_cases [of "''Austin, tx''" "''Austin''" "''tx''" "[]"] a b by blast
  moreover have "maybeAppendUS ''Austin, Texas'' = ''Austin, Texas''"
    using maybeAppendUS_cases [of "''Austin, Texas''" "[]" "[]" "[]"] e by blast
  moreover have "maybeAppendUS '' ,Austin,, tx ,'' = ''Austin'' @ '', '' @ toUpperCase ''tx'' @ '', US''"
    using maybeAppendUS_cases [of "'' ,Austin,, tx ,''" "''Austin''" "''tx''" "[]"] f b by blast
  moreover have "maybeAppendUS ''Austin, tx, , us'' = ''Austin, tx, , us''"
    using maybeAppendUS_cases [of "''Austin, tx, , us''" "[]" "[]" "[]"] h by blast
  ultimately show ?thesis using a b c s f g by (simp only: append.simps simp_thms)
qed

section \<open>Duplicate matches\<close>

lemma findIndex_Some_iff:
  "findIndex p xs = Some i \<longleftrightarrow> i < length xs \<and> p (xs ! i) \<and> (\<forall>j<i. \<not> p (xs ! j))"
proof (induction xs arbitrary: i)
  case Nil
  show ?case by simp
next
  case (Cons x xs)
  show ?case
  proof (cases "p x")
    case True
    then show ?thesis by (cases i) auto
  next
    case False
    show ?thesis
    proof (cases i)
      case 0
      with False show ?thesis by simp
    next
      case (Suc k)
      have "(\<forall>j<Suc k. \<not> p ((x # xs) ! j)) \<longleftrightarrow> (\<forall>j<k. \<not> p (xs ! j))"
        using False by (auto simp: less_Suc_eq_0_disj)
      with False Suc Cons.IH [of k] show ?thesis by auto
    qed
  qed
qed

lemma enumerate_as_map: "enumerate 0 xs = map (\<lambda>i. (i, xs ! i)) [0..<length xs]"
  by (rule nth_equalityI) (simp_all add: nth_enumerate_eq)

lemma dedupeGeo_indices:
  "dedupeGeo rs = map (\<lambda>i. rs ! i) (filter (firstAt rs) [0..<length rs])"
proof -
  have keep: "(Some i = findIndex (\<lambda>x. lat x = lat (rs ! i) \<and> lon x = lon (rs ! i)) rs) = firstAt rs i"
    if "i < length rs" for i
    using that findIndex_Some_iff [of "\<lambda>x. lat x = lat (rs ! i) \<and> lon x = lon (rs ! i)" rs i]
    by (auto simp: firstAt_def sameCoords_def)
  have "filter ((\<lambda>(i, g). Some i = findIndex (\<lambda>x. lat x = lat g \<and> lon x = lon g) rs) \<circ> (\<lambda>i. (i, rs ! i)))
          [0..<length rs] = filter (firstAt rs) [0..<length rs]"
    by (rule filter_cong) (simp_all add: keep)
  then show ?thesis
    by (simp add: dedupeGeo_def enumerate_as_map filter_map comp_def)
qed

lemma dedupeGeo_subseq: "subseq (dedupeGeo rs) rs"
proof -
  have "subseq (map snd (filter (\<lambda>(i, g). Some i = findIndex (\<lambda>x. lat x = lat g \<and> lon x = lon g) rs)
      (enumerate 0 rs))) (map snd (enumerate 0 rs))"
    by (intro subseq_map subseq_filter_left)
  then show ?thesis by (simp add: dedupeGeo_def)
qed

lemma dedupeGeo_distinct: "distinct (map (\<lambda>g. (lat g, lon g)) (dedupeGeo rs))"
proof -
  have "inj_on (\<lambda>i. (lat (rs ! i), lon (rs ! i))) (set (filter (firstAt rs) [0..<length rs]))"
  proof (rule inj_onI)
    fix i j
    assume i: "i \<in> set (filter (firstAt rs) [0..<length rs])"
      and j: "j \<in> set (filter (firstAt rs) [0..<length rs])"
      and eq: "(lat (rs ! i), lon (rs ! i)) = (lat (rs ! j), lon (rs ! j))"
    show "i = j"
    proof (rule ccontr)
      assume "i \<noteq> j"
      then consider "i < j" | "j < i" by linarith
      then show False
      proof cases
        case 1
        with j eq show False by (auto simp: firstAt_def sameCoords_def)
      next
        case 2
        with i eq show False by (auto simp: firstAt_def sameCoords_def)
      qed
    qed
  qed
  then show ?thesis
    by (simp add: dedupeGeo_indices comp_def distinct_map)
qed

lemma dedupeGeo_coords:
  "set (map (\<lambda>g. (lat g, lon g)) (dedupeGeo rs)) = set (map (\<lambda>g. (lat g, lon g)) rs)"
proof
  show "set (map (\<lambda>g. (lat g, lon g)) (dedupeGeo rs)) \<subseteq> set (map (\<lambda>g. (lat g, lon g)) rs)"
    unfolding dedupeGeo_indices by auto
next
  show "set (map (\<lambda>g. (lat g, lon g)) rs) \<subseteq> set (map (\<lambda>g. (lat g, lon g)) (dedupeGeo rs))"
  proof
    fix c assume "c \<in> set (map (\<lambda>g. (lat g, lon g)) rs)"
    then obtain i where i: "i < length rs" "c = (lat (rs ! i), lon (rs ! i))"
      by (auto simp: in_set_conv_nth)
    define k where "k = (LEAST j. sameCoords (rs ! j) (rs ! i))"
    have self: "sameCoords (rs ! i) (rs ! i)" by (simp add: sameCoords_def)
    have k: "sameCoords (rs ! k) (rs ! i)" unfolding k_def using self by (rule LeastI)
    have kle: "k \<le> i" unfolding k_def using self by (rule Least_le)
    have "firstAt rs k"
      unfolding firstAt_def
    proof (intro allI impI)
      fix j assume "j < k"
      show "\<not> sameCoords (rs ! j) (rs ! k)"
      proof
        assume "sameCoords (rs ! j) (rs ! k)"
        with k have "sameCoords (rs ! j) (rs ! i)" by (simp add: sameCoords_def)
        then have "k \<le> j" unfolding k_def by (rule Least_le)
        with \<open>j < k\<close> show False by simp
      qed
    qed
    with kle i(1) have "k \<in> set (filter (firstAt rs) [0..<length rs])" by simp
    moreover have "c = (lat (rs ! k), lon (rs ! k))" using k i(2) by (simp add: sameCoords_def)
    ultimately show "c \<in> set (map (\<lambda>g. (lat g, lon g)) (dedupeGeo rs))"
      unfolding dedupeGeo_indices by (auto simp: image_iff)
  qed
qed

lemma dedupeGeo_pair: "lat a = lat b \<Longrightarrow> lon a = lon b \<Longrightarrow> dedupeGeo [a, b] = [a]"
  by (simp add: dedupeGeo_def enumerate_eq_zip)

lemma dedupeGeo_ne: "rs \<noteq> [] \<Longrightarrow> dedupeGeo rs \<noteq> []"
proof -
  assume "rs \<noteq> []"
  then have "set (map (\<lambda>g. (lat g, lon g)) rs) \<noteq> {}" by simp
  then have "set (map (\<lambda>g. (lat g, lon g)) (dedupeGeo rs)) \<noteq> {}"
    unfolding dedupeGeo_coords .
  then show ?thesis by auto
qed

text \<open>
  C8. \<^verbatim>\<open>dedupeGeo\<close> keeps exactly the matches that no earlier match shares both
  coordinates with, in their order: the result is the input read at the indices \<open>i\<close> for
  which no \<open>j < i\<close> has the latitude and the longitude of \<open>i\<close>. So the result is a
  subsequence of the input, no pair of coordinates occurs twice in it, and every pair of
  coordinates of the input still occurs. Two matches with the same coordinates, whatever
  their other fields (such as names that differ in case), collapse to the first.
\<close>

theorem dedupeGeo_first_seen:
  "dedupeGeo rs =
     map (\<lambda>i. rs ! i)
       (filter (\<lambda>i. \<forall>j<i. \<not> (lat (rs ! j) = lat (rs ! i) \<and> lon (rs ! j) = lon (rs ! i)))
          [0..<length rs]) \<and>
   subseq (dedupeGeo rs) rs \<and>
   distinct (map (\<lambda>g. (lat g, lon g)) (dedupeGeo rs)) \<and>
   set (map (\<lambda>g. (lat g, lon g)) (dedupeGeo rs)) = set (map (\<lambda>g. (lat g, lon g)) rs) \<and>
   (lat a = lat b \<and> lon a = lon b \<longrightarrow> dedupeGeo [a, b] = [a])"
  using dedupeGeo_indices [of rs] dedupeGeo_subseq [of rs] dedupeGeo_distinct [of rs]
    dedupeGeo_coords [of rs] dedupeGeo_pair [of a b]
  unfolding firstAt_def sameCoords_def by blast

theorem dedupeGeo_first_seen_witness:
  "dedupeGeo
     [\<lparr>name = ''Paris'', state = None, country = ''FR'', lat = 48 :: int, lon = 2 :: int\<rparr>,
      \<lparr>name = ''PARIS'', state = None, country = ''FR'', lat = 48, lon = 2\<rparr>]
   = [\<lparr>name = ''Paris'', state = None, country = ''FR'', lat = 48, lon = 2\<rparr>]"
proof -
  have "lat \<lparr>name = ''Paris'', state = None, country = ''FR'', lat = 48 :: int, lon = 2 :: int\<rparr>
          = lat \<lparr>name = ''PARIS'', state = None, country = ''FR'', lat = 48 :: int, lon = 2 :: int\<rparr> \<and>
        lon \<lparr>name = ''Paris'', state = None, country = ''FR'', lat = 48 :: int, lon = 2 :: int\<rparr>
          = lon \<lparr>name = ''PARIS'', state = None, country = ''FR'', lat = 48 :: int, lon = 2 :: int\<rparr>"
    by simp
  with dedupeGeo_first_seen
    [of "[]" "\<lparr>name = ''Paris'', state = None, country = ''FR'', lat = 48 :: int, lon = 2 :: int\<rparr>"
       "\<lparr>name = ''PARIS'', state = None, country = ''FR'', lat = 48, lon = 2\<rparr>"]
  show ?thesis by blast
qed

section \<open>The best match\<close>

lemma includesStr_sublist: "includesStr s t \<longleftrightarrow> sublist t s"
  by (induction s) (simp_all add: sublist_Cons_right)

lemma length_toLowerCase [simp]: "length (toLowerCase s) = length s"
  by (simp add: toLowerCase_def)

lemma toLowerCase_Nil_iff [simp]: "toLowerCase s = [] \<longleftrightarrow> s = []"
  by (simp add: toLowerCase_def)

lemma commaParts_nth_ne: "i < length (commaParts q) \<Longrightarrow> commaParts q ! i \<noteq> []"
  using nth_mem [of i "commaParts q"] by (auto simp: commaParts_def)

lemma find_firstSuch: "find p xs = Some g \<longleftrightarrow> firstSuch p xs g"
  unfolding find_Some_iff firstSuch_def by auto

lemma find_never: "(\<And>g. \<not> p g) \<Longrightarrow> find p xs = None"
  by (simp add: find_None_iff)

lemma stateHit_find:
  "(if (if 2 \<le> length (commaParts q) then toLowerCase (commaParts q ! 1) else []) \<noteq> []
    then find (\<lambda>g. toLowerCase (stateOrEmpty g) =
                 (if 2 \<le> length (commaParts q) then toLowerCase (commaParts q ! 1) else [])) ms
    else None) = find (stateTokenHit q) ms"
proof (cases "2 \<le> length (commaParts q)")
  case True
  then have "commaParts q ! 1 \<noteq> []" by (intro commaParts_nth_ne) simp
  moreover have "find (\<lambda>g. toLowerCase (stateOrEmpty g) = toLowerCase (commaParts q ! 1)) ms
      = find (stateTokenHit q) ms"
    using True by (intro find_cong) (simp_all add: stateTokenHit_def)
  ultimately show ?thesis using True by simp
next
  case False
  then have "find (stateTokenHit q) ms = None"
    by (intro find_never) (simp add: stateTokenHit_def)
  with False show ?thesis by simp
qed

lemma countryHit_find:
  "(if (if 3 \<le> length (commaParts q) then toLowerCase (commaParts q ! 2) else []) \<noteq> [] \<and>
       length (if 3 \<le> length (commaParts q) then toLowerCase (commaParts q ! 2) else []) \<le> 3
    then find (\<lambda>g. toLowerCase (country g) =
                 (if 3 \<le> length (commaParts q) then toLowerCase (commaParts q ! 2) else [])) ms
    else None) = find (countryTokenHit q) ms"
proof (cases "3 \<le> length (commaParts q) \<and> length (commaParts q ! 2) \<le> 3")
  case True
  then have "commaParts q ! 2 \<noteq> []" by (intro commaParts_nth_ne) simp
  moreover have "find (\<lambda>g. toLowerCase (country g) = toLowerCase (commaParts q ! 2)) ms
      = find (countryTokenHit q) ms"
    using True by (intro find_cong) (simp_all add: countryTokenHit_def)
  ultimately show ?thesis using True by simp
next
  case False
  then have "find (countryTokenHit q) ms = None"
    by (intro find_never) (auto simp: countryTokenHit_def)
  with False show ?thesis by auto
qed

lemma stateNameHit_find:
  "find (\<lambda>g. let st = toLowerCase (stateOrEmpty g) in st \<noteq> [] \<and> includesStr (toLowerCase q) st) ms
     = find (stateNameHit q) ms"
  by (rule find_cong) (simp_all add: stateNameHit_def includesStr_sublist)

lemma pickBestGeoMatch_alt:
  "pickBestGeoMatch q ms =
     (case find (stateTokenHit q) ms of Some g \<Rightarrow> Some g
      | None \<Rightarrow>
          (case find (countryTokenHit q) ms of Some g \<Rightarrow> Some g
           | None \<Rightarrow>
               (case find (stateNameHit q) ms of Some g \<Rightarrow> Some g
                | None \<Rightarrow> (case ms of [] \<Rightarrow> None | g # gs \<Rightarrow> Some g))))"
proof -
  have "pickBestGeoMatch q ms =
     (case find (stateTokenHit q) ms of Some g \<Rightarrow> Some g
      | None \<Rightarrow>
          (case find (countryTokenHit q) ms of Some g \<Rightarrow> Some g
           | None \<Rightarrow>
               (case find (\<lambda>g. let st = toLowerCase (stateOrEmpty g)
                            in st \<noteq> [] \<and> includesStr (toLowerCase q) st) ms of Some g \<Rightarrow> Some g
                | None \<Rightarrow> (case ms of [] \<Rightarrow> None | g # gs \<Rightarrow> Some g))))"
    unfolding pickBestGeoMatch_def
    by (simp only: Let_def [of "toLowerCase q"] Let_def [of "commaParts q"]
        Let_def [of "if _ then _ else _"] Let_def [of "find _ _"] stateHit_find countryHit_find)
  then show ?thesis unfolding stateNameHit_find .
qed

lemma find_hit: "\<exists>g\<in>set xs. p g \<Longrightarrow> \<exists>g. find p xs = Some g \<and> firstSuch p xs g"
proof -
  assume "\<exists>g\<in>set xs. p g"
  then have "find p xs \<noteq> None" by (auto simp: find_None_iff)
  then obtain g where "find p xs = Some g" by auto
  then show ?thesis by (auto simp: find_firstSuch)
qed

lemma find_miss: "\<not> (\<exists>g\<in>set xs. p g) \<Longrightarrow> find p xs = None"
  by (auto simp: find_None_iff)

text \<open>
  C1 (as amended). For a list of matches that is not empty, \<^verbatim>\<open>pickBestGeoMatch\<close> goes
  through four rules in this order and returns at the first that applies. The second and
  the third part of the query are taken among the trimmed parts of its comma split that
  are not empty. (1) Some match has a state that equals, in lower case, the second part:
  the first such match. (2) Else the third part has at most 3 characters and some match
  has a country that equals it in lower case: the first such match. (3) Else the query in
  lower case contains the state, in lower case and not empty, of some match: the first
  such match. (4) Else the first match of the list.
\<close>

theorem pickBestGeoMatch_priority:
  assumes "ms \<noteq> []"
  shows
    "((\<exists>g\<in>set ms. stateTokenHit q g) \<longrightarrow>
        (\<exists>g. pickBestGeoMatch q ms = Some g \<and> firstSuch (stateTokenHit q) ms g)) \<and>
     (\<not> (\<exists>g\<in>set ms. stateTokenHit q g) \<and> (\<exists>g\<in>set ms. countryTokenHit q g) \<longrightarrow>
        (\<exists>g. pickBestGeoMatch q ms = Some g \<and> firstSuch (countryTokenHit q) ms g)) \<and>
     (\<not> (\<exists>g\<in>set ms. stateTokenHit q g) \<and> \<not> (\<exists>g\<in>set ms. countryTokenHit q g) \<and>
      (\<exists>g\<in>set ms. stateNameHit q g) \<longrightarrow>
        (\<exists>g. pickBestGeoMatch q ms = Some g \<and> firstSuch (stateNameHit q) ms g)) \<and>
     (\<not> (\<exists>g\<in>set ms. stateTokenHit q g) \<and> \<not> (\<exists>g\<in>set ms. countryTokenHit q g) \<and>
      \<not> (\<exists>g\<in>set ms. stateNameHit q g) \<longrightarrow>
        pickBestGeoMatch q ms = Some (hd ms))"
proof (intro conjI impI)
  assume "\<exists>g\<in>set ms. stateTokenHit q g"
  from find_hit [OF this] show "\<exists>g. pickBestGeoMatch q ms = Some g \<and> firstSuch (stateTokenHit q) ms g"
    by (auto simp: pickBestGeoMatch_alt)
next
  assume a: "\<not> (\<exists>g\<in>set ms. stateTokenHit q g) \<and> (\<exists>g\<in>set ms. countryTokenHit q g)"
  then have "find (stateTokenHit q) ms = None" by (intro find_miss) simp
  moreover from a have "\<exists>g. find (countryTokenHit q) ms = Some g \<and> firstSuch (countryTokenHit q) ms g"
    by (intro find_hit) simp
  ultimately show "\<exists>g. pickBestGeoMatch q ms = Some g \<and> firstSuch (countryTokenHit q) ms g"
    by (auto simp: pickBestGeoMatch_alt)
next
  assume a: "\<not> (\<exists>g\<in>set ms. stateTokenHit q g) \<and> \<not> (\<exists>g\<in>set ms. countryTokenHit q g) \<and>
      (\<exists>g\<in>set ms. stateNameHit q g)"
  then have "find (stateTokenHit q) ms = None" by (intro find_miss) simp
  moreover from a have "find (countryTokenHit q) ms = None" by (intro find_miss) simp
  moreover from a have "\<exists>g. find (stateNameHit q) ms = Some g \<and> firstSuch (stateNameHit q) ms g"
    by (intro find_hit) simp
  ultimately show "\<exists>g. pickBestGeoMatch q ms = Some g \<and> firstSuch (stateNameHit q) ms g"
    by (auto simp: pickBestGeoMatch_alt)
next
  assume a: "\<not> (\<exists>g\<in>set ms. stateTokenHit q g) \<and> \<not> (\<exists>g\<in>set ms. countryTokenHit q g) \<and>
      \<not> (\<exists>g\<in>set ms. stateNameHit q g)"
  then have "find (stateTokenHit q) ms = None" by (intro find_miss) simp
  moreover from a have "find (countryTokenHit q) ms = None" by (intro find_miss) simp
  moreover from a have "find (stateNameHit q) ms = None" by (intro find_miss) simp
  ultimately show "pickBestGeoMatch q ms = Some (hd ms)"
    using assms by (cases ms) (simp_all add: pickBestGeoMatch_alt)
qed

theorem pickBestGeoMatch_priority_witness:
  "stateTokenHit ''x,,ca''
     \<lparr>name = ''X'', state = Some ''CA'', country = ''US'', lat = 3 :: int, lon = 4 :: int\<rparr> \<and>
   pickBestGeoMatch ''x,,ca''
     [\<lparr>name = ''X'', state = Some ''Texas'', country = ''CA'', lat = 1 :: int, lon = 2 :: int\<rparr>,
      \<lparr>name = ''X'', state = Some ''CA'', country = ''US'', lat = 3, lon = 4\<rparr>]
   = Some \<lparr>name = ''X'', state = Some ''CA'', country = ''US'', lat = 3, lon = 4\<rparr>"
proof -
  let ?a = "\<lparr>name = ''X'', state = Some ''Texas'', country = ''CA'', lat = 1 :: int, lon = 2 :: int\<rparr>"
  let ?b = "\<lparr>name = ''X'', state = Some ''CA'', country = ''US'', lat = 3 :: int, lon = 4 :: int\<rparr>"
  have parts: "commaParts ''x,,ca'' = [''x'', ''ca'']"
    by (simp add: commaParts_def trim_def trimEnd_def is_ws_def)
  have low: "toLowerCase ''CA'' = ''ca''" "toLowerCase ''ca'' = ''ca''" "toLowerCase ''Texas'' = ''texas''"
    by code_simp+
  have hb: "stateTokenHit ''x,,ca'' ?b"
    by (simp add: stateTokenHit_def parts stateOrEmpty_def low)
  have na: "\<not> stateTokenHit ''x,,ca'' ?a"
    by (simp add: stateTokenHit_def parts stateOrEmpty_def low)
  have ne: "[?a, ?b] \<noteq> []" by simp
  from hb have "\<exists>g\<in>set [?a, ?b]. stateTokenHit ''x,,ca'' g" by simp
  with pickBestGeoMatch_priority [OF ne, of "''x,,ca''"]
  obtain g where g: "pickBestGeoMatch ''x,,ca'' [?a, ?b] = Some g"
    and f: "firstSuch (stateTokenHit ''x,,ca'') [?a, ?b] g"
    by blast
  from f na have "g = ?b"
    by (auto simp: firstSuch_def less_Suc_eq numeral_2_eq_2)
  with g hb show ?thesis by simp
qed

text \<open>
  C1 as it is worded fails. In the query \<open>x,,ca\<close> the second segment of the comma split is
  empty and the third is \<open>ca\<close>: read word for word, rule 1 finds nothing, and rule 2
  returns the first match, whose country is \<open>CA\<close>. The code drops the empty segment
  first, takes \<open>ca\<close> for the state and returns the second match.
\<close>

theorem pickBestGeoMatch_segments_counterexample:
  "rawSegment ''x,,ca'' 1 = Some [] \<and> rawSegment ''x,,ca'' 2 = Some ''ca'' \<and>
   pickBySegments ''x,,ca''
     [\<lparr>name = ''X'', state = Some ''Texas'', country = ''CA'', lat = 1 :: int, lon = 2 :: int\<rparr>,
      \<lparr>name = ''X'', state = Some ''CA'', country = ''US'', lat = 3, lon = 4\<rparr>]
   = Some \<lparr>name = ''X'', state = Some ''Texas'', country = ''CA'', lat = 1, lon = 2\<rparr> \<and>
   pickBestGeoMatch ''x,,ca''
     [\<lparr>name = ''X'', state = Some ''Texas'', country = ''CA'', lat = 1 :: int, lon = 2 :: int\<rparr>,
      \<lparr>name = ''X'', state = Some ''CA'', country = ''US'', lat = 3, lon = 4\<rparr>]
   = Some \<lparr>name = ''X'', state = Some ''CA'', country = ''US'', lat = 3, lon = 4\<rparr>"
proof -
  have parts: "commaParts ''x,,ca'' = [''x'', ''ca'']"
    by (simp add: commaParts_def trim_def trimEnd_def is_ws_def)
  have low: "toLowerCase ''CA'' = ''ca''" "toLowerCase ''ca'' = ''ca''"
    "toLowerCase ''Texas'' = ''texas''" "toLowerCase [] = []"
    by code_simp+
  have seg: "rawSegment ''x,,ca'' 1 = Some []" "rawSegment ''x,,ca'' 2 = Some ''ca''"
    by (simp_all add: rawSegment_def trim_def trimEnd_def is_ws_def low)
  have seg': "rawSegment ''x,,ca'' (Suc 0) = Some []"
    using seg(1) by simp
  show ?thesis
    by (simp add: seg seg' pickBySegments_def pickBestGeoMatch_def parts stateOrEmpty_def low)
qed

section \<open>Day keys by example\<close>

text \<open>The calendar of the model at a few known dates, among them both sides of a leap day,
  of a year's end and of the epoch, and a century that is not a leap year.\<close>

lemma civil_examples:
  "civil 0 = (1970, 1, 1)"
  "civil (- 1) = (1969, 12, 31)"
  "civil 11016 = (2000, 2, 29)"
  "civil 11017 = (2000, 3, 1)"
  "civil 19782 = (2024, 2, 29)"
  "civil 20088 = (2024, 12, 31)"
  "civil 20089 = (2025, 1, 1)"
  "civil 47540 = (2100, 2, 28)"
  "civil 47541 = (2100, 3, 1)"
  "civil (- 25567) = (1900, 1, 1)"
  by code_simp+

lemma dayKey_examples:
  "dayKeyFromUtcWithOffset 0 0 = ''1970-01-01''"
  "dayKeyFromUtcWithOffset 1700000000 0 = ''2023-11-14''"
  "dayKeyFromUtcWithOffset 1700000000 36000 = ''2023-11-15''"
  "dayKeyFromUtcWithOffset 1735689599 0 = ''2024-12-31''"
  "dayKeyFromUtcWithOffset 1735689599 1 = ''2025-01-01''"
  "dayKeyFromUtcWithOffset 0 (- 3600) = ''1969-12-31''"
  by code_simp+

section \<open>The days of the forecast\<close>

lemma usable_cases:
  "usable item \<Longrightarrow> (itemMin item, itemMax item) = (Some (minOf item), Some (maxOf item))"
  by (auto simp: usable_def minOf_def maxOf_def)

lemma addPoint_usable:
  "usable item \<Longrightarrow>
   addPoint tz byDay item =
     AList.update (keyOf tz item)
       (foldPoint
          (case map_of byDay (keyOf tz item) of
             None \<Rightarrow> \<lparr>agg_min = minOf item, agg_max = maxOf item, descCounts = [], popMax = 0\<rparr>
           | Some a \<Rightarrow> a)
          (minOf item) (maxOf item) item) byDay"
  by (simp add: addPoint_def keyOf_def usable_cases Let_def)

lemma addPoint_skip: "\<not> usable item \<Longrightarrow> addPoint tz byDay item = byDay"
  by (auto simp: addPoint_def usable_def Let_def split: option.splits)

lemma map_of_addPoint:
  "map_of (addPoint tz byDay item) k =
     (if usable item \<and> keyOf tz item = k then aggStep (map_of byDay k) item else map_of byDay k)"
proof (cases "usable item")
  case True
  then show ?thesis by (simp add: addPoint_usable update_conv' aggStep_def)
next
  case False
  then show ?thesis by (simp add: addPoint_skip)
qed

lemma aggStep_skip: "\<not> usable item \<Longrightarrow> aggStep a item = a"
  by (simp add: aggStep_def)

lemma map_of_foldl_addPoint:
  "map_of (foldl (addPoint tz) byDay list) k = foldl aggStep (map_of byDay k) (dayPoints tz list k)"
proof (induction list arbitrary: byDay)
  case Nil
  show ?case by (simp add: dayPoints_def)
next
  case (Cons item list)
  have "map_of (foldl (addPoint tz) (addPoint tz byDay item) list) k
      = foldl aggStep (map_of (addPoint tz byDay item) k) (dayPoints tz list k)"
    by (rule Cons.IH)
  then show ?case by (simp add: dayPoints_def map_of_addPoint)
qed

lemma keys_addPoint:
  "map fst (addPoint tz byDay item) =
     (if usable item \<and> keyOf tz item \<notin> set (map fst byDay)
      then map fst byDay @ [keyOf tz item] else map fst byDay)"
proof (cases "usable item")
  case True
  then show ?thesis by (simp add: addPoint_usable update_keys)
next
  case False
  then show ?thesis by (simp add: addPoint_skip)
qed

lemma keys_foldl_addPoint:
  "set (map fst (foldl (addPoint tz) byDay list)) = set (map fst byDay) \<union> dayKeys tz list"
proof (induction list arbitrary: byDay)
  case Nil
  show ?case by (simp add: dayKeys_def)
next
  case (Cons item list)
  have "set (map fst (foldl (addPoint tz) (addPoint tz byDay item) list))
      = set (map fst (addPoint tz byDay item)) \<union> dayKeys tz list"
    by (rule Cons.IH)
  then show ?case by (auto simp: keys_addPoint dayKeys_def)
qed

lemma distinct_foldl_addPoint:
  "distinct (map fst byDay) \<Longrightarrow> distinct (map fst (foldl (addPoint tz) byDay list))"
proof (induction list arbitrary: byDay)
  case Nil
  then show ?case by simp
next
  case (Cons item list)
  from Cons.prems have "distinct (map fst (addPoint tz byDay item))"
    by (simp add: keys_addPoint)
  from Cons.IH [OF this] show ?case by simp
qed

lemma aggStep_Some:
  "usable item \<Longrightarrow> aggStep (Some b) item = Some (foldPoint b (minOf item) (maxOf item) item)"
  by (simp add: aggStep_def)

lemma foldl_aggStep_Some:
  "\<forall>p\<in>set pts. usable p \<Longrightarrow> foldl aggStep (Some b) pts = Some (aggFold b pts)"
proof (induction pts arbitrary: b)
  case Nil
  show ?case by (simp add: aggFold_def)
next
  case (Cons p pts)
  then have "foldl aggStep (Some (foldPoint b (minOf p) (maxOf p) p)) pts
      = Some (aggFold (foldPoint b (minOf p) (maxOf p) p) pts)"
    by simp
  with Cons.prems show ?case by (simp add: aggStep_Some aggFold_def)
qed

lemma dayPoints_usable: "p \<in> set (dayPoints tz list k) \<Longrightarrow> usable p"
  by (simp add: dayPoints_def)

lemma dayPoints_empty_iff: "dayPoints tz list k = [] \<longleftrightarrow> k \<notin> dayKeys tz list"
  by (auto simp: dayPoints_def dayKeys_def filter_empty_conv)

lemma foldl_aggStep_None:
  assumes "\<forall>p\<in>set (p # ps). usable p"
  shows "foldl aggStep None (p # ps)
       = Some (aggFold \<lparr>agg_min = minOf p, agg_max = maxOf p, descCounts = [], popMax = 0\<rparr> (p # ps))"
proof -
  let ?fresh = "\<lparr>agg_min = minOf p, agg_max = maxOf p, descCounts = [], popMax = 0\<rparr>"
  have "aggStep None p = Some (foldPoint ?fresh (minOf p) (maxOf p) p)"
    using assms by (simp add: aggStep_def)
  moreover have "foldl aggStep (Some (foldPoint ?fresh (minOf p) (maxOf p) p)) ps
      = Some (aggFold (foldPoint ?fresh (minOf p) (maxOf p) p) ps)"
    using assms by (intro foldl_aggStep_Some) simp
  ultimately show ?thesis by (simp add: aggFold_def)
qed

lemma map_of_byDay:
  "map_of (foldl (addPoint tz) [] list) k =
     (if k \<in> dayKeys tz list then Some (dayAgg tz list k) else None)"
proof (cases "dayPoints tz list k")
  case Nil
  then show ?thesis
    using dayPoints_empty_iff [of tz list k] by (simp add: map_of_foldl_addPoint)
next
  case (Cons p ps)
  have "\<forall>q\<in>set (p # ps). usable q"
    using dayPoints_usable [of _ tz list k] unfolding Cons by blast
  from foldl_aggStep_None [OF this] show ?thesis
    using dayPoints_empty_iff [of tz list k] Cons
    by (simp add: map_of_foldl_addPoint dayAgg_def)
qed

lemma foldPoint_simps [simp]:
  "agg_min (foldPoint a mn mx item) = min (agg_min a) mn"
  "agg_max (foldPoint a mn mx item) = max (agg_max a) mx"
  "popMax (foldPoint a mn mx item) = max (popMax a) (itemPop item)"
  "descCounts (foldPoint a mn mx item) = bump (descCounts a) (itemDesc item)"
  by (simp_all add: foldPoint_def bump_def Let_def)

lemma aggFold_Cons: "aggFold b (p # pts) = aggFold (foldPoint b (minOf p) (maxOf p) p) pts"
  by (simp add: aggFold_def)

lemma aggFold_Nil [simp]: "aggFold b [] = b"
  by (simp add: aggFold_def)

lemma popMax_aggFold: "popMax (aggFold b pts) = Max (set (popMax b # map itemPop pts))"
proof (induction pts arbitrary: b)
  case Nil
  show ?case by simp
next
  case (Cons p pts)
  have "popMax (aggFold b (p # pts)) = Max (set (max (popMax b) (itemPop p) # map itemPop pts))"
    by (simp add: aggFold_Cons Cons.IH)
  also have "\<dots> = Max (insert (popMax b) (insert (itemPop p) (set (map itemPop pts))))"
    by (cases "pts = []") (simp_all add: max.assoc)
  finally show ?case by simp
qed

lemma agg_min_aggFold: "agg_min (aggFold b pts) = Min (set (agg_min b # map minOf pts))"
proof (induction pts arbitrary: b)
  case Nil
  show ?case by simp
next
  case (Cons p pts)
  have "agg_min (aggFold b (p # pts)) = Min (set (min (agg_min b) (minOf p) # map minOf pts))"
    by (simp add: aggFold_Cons Cons.IH)
  also have "\<dots> = Min (insert (agg_min b) (insert (minOf p) (set (map minOf pts))))"
    by (cases "pts = []") (simp_all add: min.assoc)
  finally show ?case by simp
qed

lemma agg_max_aggFold: "agg_max (aggFold b pts) = Max (set (agg_max b # map maxOf pts))"
proof (induction pts arbitrary: b)
  case Nil
  show ?case by simp
next
  case (Cons p pts)
  have "agg_max (aggFold b (p # pts)) = Max (set (max (agg_max b) (maxOf p) # map maxOf pts))"
    by (simp add: aggFold_Cons Cons.IH)
  also have "\<dots> = Max (insert (agg_max b) (insert (maxOf p) (set (map maxOf pts))))"
    by (cases "pts = []") (simp_all add: max.assoc)
  finally show ?case by simp
qed

lemma descCounts_aggFold:
  "descCounts (aggFold b pts) = foldl bump (descCounts b) (map itemDesc pts)"
  by (induction pts arbitrary: b) (simp_all add: aggFold_Cons)

lemma dayAgg_fields:
  assumes "k \<in> dayKeys tz list"
  shows "popMax (dayAgg tz list k) = Max (set (0 # map itemPop (dayPoints tz list k)))"
    and "agg_min (dayAgg tz list k) = Min (set (map minOf (dayPoints tz list k)))"
    and "agg_max (dayAgg tz list k) = Max (set (map maxOf (dayPoints tz list k)))"
    and "descCounts (dayAgg tz list k) = foldl bump [] (map itemDesc (dayPoints tz list k))"
proof -
  from assms obtain p ps where pts: "dayPoints tz list k = p # ps"
    using dayPoints_empty_iff [of tz list k] by (cases "dayPoints tz list k") auto
  show "popMax (dayAgg tz list k) = Max (set (0 # map itemPop (dayPoints tz list k)))"
    by (simp add: dayAgg_def pts popMax_aggFold)
  show "agg_min (dayAgg tz list k) = Min (set (map minOf (dayPoints tz list k)))"
    by (simp add: dayAgg_def pts agg_min_aggFold)
  show "agg_max (dayAgg tz list k) = Max (set (map maxOf (dayPoints tz list k)))"
    by (simp add: dayAgg_def pts agg_max_aggFold)
  show "descCounts (dayAgg tz list k) = foldl bump [] (map itemDesc (dayPoints tz list k))"
    by (simp add: dayAgg_def pts descCounts_aggFold)
qed

subsection \<open>The table of descriptions\<close>

lemma uniq_snoc: "uniq (ds @ [x]) = (if x \<in> set (uniq ds) then uniq ds else uniq ds @ [x])"
  by (simp add: uniq_def)

lemma uniq_Nil [simp]: "uniq [] = []"
  by (simp add: uniq_def)

lemma set_uniq [simp]: "set (uniq ds) = set ds"
  by (induction ds rule: rev_induct) (auto simp: uniq_snoc)

lemma distinct_uniq [simp]: "distinct (uniq ds)"
  by (induction ds rule: rev_induct) (auto simp: uniq_snoc)

lemma uniq_first_occurrence:
  "j < length (uniq ds) \<Longrightarrow>
   \<exists>pre post. ds = pre @ (uniq ds ! j) # post \<and> uniq ds ! j \<notin> set pre \<and>
     set pre \<subseteq> set (take j (uniq ds))"
proof (induction ds arbitrary: j rule: rev_induct)
  case Nil
  then show ?case by simp
next
  case (snoc x ds)
  have step: ?case if j: "j < length (uniq ds)" and u: "uniq (ds @ [x]) ! j = uniq ds ! j"
    and t: "take j (uniq (ds @ [x])) = take j (uniq ds)"
  proof -
    from snoc.IH [OF j] obtain pre post where p: "ds = pre @ (uniq ds ! j) # post"
      and n: "uniq ds ! j \<notin> set pre" and s: "set pre \<subseteq> set (take j (uniq ds))"
      by blast
    from p have "ds @ [x] = pre @ (uniq ds ! j) # (post @ [x])" by simp
    with n s show ?thesis unfolding u t by (intro exI conjI)
  qed
  show ?case
  proof (cases "x \<in> set ds")
    case True
    then have u: "uniq (ds @ [x]) = uniq ds" by (simp add: uniq_snoc)
    with snoc.prems have "j < length (uniq ds)" by simp
    then show ?thesis by (rule step) (simp_all only: u)
  next
    case False
    then have u: "uniq (ds @ [x]) = uniq ds @ [x]" by (simp add: uniq_snoc)
    show ?thesis
    proof (cases "j < length (uniq ds)")
      case True
      then show ?thesis using True by (intro step) (simp_all add: u nth_append)
    next
      case False
      with snoc.prems u have j: "j = length (uniq ds)" by simp
      have a: "uniq (ds @ [x]) ! j = x" unfolding u j by simp
      have b: "take j (uniq (ds @ [x])) = uniq ds" unfolding u j by simp
      have "ds @ [x] = ds @ x # []" by simp
      moreover have "x \<notin> set ds" by fact
      moreover have "set ds \<subseteq> set (uniq ds)" by simp
      ultimately show ?thesis unfolding a b by (intro exI conjI)
    qed
  qed
qed

lemma keys_bump: "map fst (bump t d) = (if d \<in> set (map fst t) then map fst t else map fst t @ [d])"
  by (simp add: bump_def update_keys)

lemma keys_foldl_bump:
  "map fst (foldl bump t ds) = foldl (\<lambda>acc x. if x \<in> set acc then acc else acc @ [x]) (map fst t) ds"
  by (induction ds arbitrary: t) (simp_all add: keys_bump)

lemma keys_table: "map fst (foldl bump [] ds) = uniq ds"
  by (simp add: keys_foldl_bump uniq_def)

lemma map_of_bump:
  "map_of (bump t x) d =
     (if d = x then Some ((case map_of t x of None \<Rightarrow> 0 | Some k \<Rightarrow> k) + 1) else map_of t d)"
  by (simp add: bump_def update_conv')

lemma map_of_foldl_bump:
  "map_of (foldl bump t ds) d =
     (if d \<in> set ds
      then Some ((case map_of t d of None \<Rightarrow> 0 | Some k \<Rightarrow> k) + count_list ds d)
      else map_of t d)"
proof (induction ds arbitrary: t)
  case Nil
  show ?case by simp
next
  case (Cons x ds)
  show ?case
    by (simp add: Cons.IH map_of_bump count_list_0_iff split: option.splits)
qed

lemma table_nth:
  assumes "j < length (uniq ds)"
  shows "foldl bump [] ds ! j = (uniq ds ! j, count_list ds (uniq ds ! j))"
proof -
  let ?t = "foldl bump [] ds"
  have len: "length ?t = length (uniq ds)"
    using keys_table [of ds] by (metis length_map)
  have k: "fst (?t ! j) = uniq ds ! j"
    using assms len keys_table [of ds] by (metis nth_map)
  have "distinct (map fst ?t)" by (simp add: keys_table)
  moreover have "?t ! j \<in> set ?t" using assms len by simp
  ultimately have "map_of ?t (fst (?t ! j)) = Some (snd (?t ! j))"
    by (intro map_of_is_SomeI) simp_all
  moreover have "uniq ds ! j \<in> set ds" using assms nth_mem [of j "uniq ds"] by simp
  ultimately have "snd (?t ! j) = count_list ds (uniq ds ! j)"
    by (simp add: k map_of_foldl_bump)
  with k show ?thesis by (simp add: prod_eq_iff)
qed

subsection \<open>The most frequent description\<close>

lemma scan_invariant:
  fixes es :: "(string \<times> nat) list" and d0 :: string
  defines "r \<equiv> foldl (\<lambda>(topDesc, topCount) (desc, count).
                   if count > topCount then (desc, count) else (topDesc, topCount)) (d0, 0) es"
  shows "(\<forall>i<length es. snd (es ! i) \<le> snd r) \<and>
         ((snd r = 0 \<and> fst r = d0) \<or>
          (\<exists>j<length es. es ! j = r \<and> 0 < snd r \<and> (\<forall>i<j. snd (es ! i) < snd r)))"
  unfolding r_def
proof (induction es rule: rev_induct)
  case Nil
  show ?case by simp
next
  case (snoc e es)
  let ?f = "\<lambda>(topDesc, topCount) (desc, count).
              if count > topCount then (desc, count) else (topDesc :: string, topCount :: nat)"
  let ?r = "foldl ?f (d0, 0) es"
  obtain d c where r: "?r = (d, c)" by (cases ?r)
  obtain k n where e: "e = (k, n)" by (cases e)
  from snoc.IH r have all: "\<forall>i<length es. snd (es ! i) \<le> c"
    and alt: "(c = 0 \<and> d = d0) \<or> (\<exists>j<length es. es ! j = (d, c) \<and> 0 < c \<and> (\<forall>i<j. snd (es ! i) < c))"
    by simp_all
  show ?case
  proof (cases "n > c")
    case True
    then have new: "foldl ?f (d0, 0) (es @ [e]) = (k, n)" by (simp add: r e)
    have "\<forall>i<length (es @ [e]). snd ((es @ [e]) ! i) \<le> n"
      using all True by (auto simp: nth_append e less_Suc_eq)
    moreover have "length es < length (es @ [e])" by simp
    moreover have "(es @ [e]) ! length es = (k, n)" by (simp add: e)
    moreover have "0 < n" using True by simp
    moreover have "\<forall>i<length es. snd ((es @ [e]) ! i) < n"
      using all True by (auto simp: nth_append)
    ultimately show ?thesis unfolding new by (metis snd_conv)
  next
    case False
    then have old: "foldl ?f (d0, 0) (es @ [e]) = (d, c)" by (simp add: r e)
    have a: "\<forall>i<length (es @ [e]). snd ((es @ [e]) ! i) \<le> c"
      using all False by (auto simp: nth_append e less_Suc_eq)
    from alt show ?thesis
    proof
      assume "c = 0 \<and> d = d0"
      with a show ?thesis unfolding old by simp
    next
      assume "\<exists>j<length es. es ! j = (d, c) \<and> 0 < c \<and> (\<forall>i<j. snd (es ! i) < c)"
      then obtain j where j: "j < length es" "es ! j = (d, c)" "0 < c" "\<forall>i<j. snd (es ! i) < c"
        by blast
      have "j < length (es @ [e])" using j(1) by simp
      moreover have "(es @ [e]) ! j = (d, c)" using j(1,2) by (simp add: nth_append)
      moreover have "\<forall>i<j. snd ((es @ [e]) ! i) < c" using j(1,4) by (simp add: nth_append)
      ultimately have "\<exists>j<length (es @ [e]). (es @ [e]) ! j = (d, c) \<and> 0 < snd (d, c) \<and>
          (\<forall>i<j. snd ((es @ [e]) ! i) < snd (d, c))"
        using j(3) by auto
      with a show ?thesis unfolding old by simp
    qed
  qed
qed

lemma topDesc_first_max:
  assumes "ds \<noteq> []"
  defines "best \<equiv> topDescOf (foldl bump [] ds)"
  shows "\<exists>pre post. ds = pre @ best # post \<and> best \<notin> set pre \<and>
           (\<forall>e\<in>set pre. count_list ds e < count_list ds best) \<and>
           (\<forall>e\<in>set ds. count_list ds e \<le> count_list ds best)"
proof -
  let ?es = "foldl bump [] ds"
  let ?r = "foldl (\<lambda>(topDesc, topCount) (desc, count).
                   if count > topCount then (desc, count) else (topDesc, topCount))
              (''mixed conditions'', 0) ?es"
  have bst: "best = fst ?r" by (simp add: best_def topDescOf_def)
  have len: "length ?es = length (uniq ds)"
    using keys_table [of ds] by (metis length_map)
  have nth: "?es ! i = (uniq ds ! i, count_list ds (uniq ds ! i))" if "i < length (uniq ds)" for i
    using that by (rule table_nth)
  have pos: "0 < count_list ds (uniq ds ! i)" if "i < length (uniq ds)" for i
  proof -
    have "uniq ds ! i \<in> set ds" using that nth_mem [of i "uniq ds"] by simp
    then have "count_list ds (uniq ds ! i) \<noteq> 0" unfolding count_list_0_iff by simp
    then show ?thesis by simp
  qed
  from assms(1) have ne: "0 < length (uniq ds)"
    by (metis length_greater_0_conv set_empty set_uniq)
  note inv = scan_invariant [of ?es "''mixed conditions''"]
  from inv have all: "\<forall>i<length ?es. snd (?es ! i) \<le> snd ?r" by blast
  have "snd ?r \<noteq> 0"
  proof
    assume "snd ?r = 0"
    with all ne len have "snd (?es ! 0) \<le> 0" by simp
    with nth [OF ne] pos [OF ne] show False by simp
  qed
  with inv obtain j where j: "j < length ?es" "?es ! j = ?r" "\<forall>i<j. snd (?es ! i) < snd ?r"
    by blast
  from j(1) len have jl: "j < length (uniq ds)" by simp
  have r: "?r = (uniq ds ! j, count_list ds (uniq ds ! j))"
    using j(2) nth [OF jl] by simp
  have t: "best = uniq ds ! j" unfolding bst r by simp
  have c: "snd ?r = count_list ds best" unfolding r t by simp
  from uniq_first_occurrence [OF jl] obtain pre post where
    p: "ds = pre @ best # post" and n: "best \<notin> set pre" and s: "set pre \<subseteq> set (take j (uniq ds))"
    unfolding t by blast
  have "count_list ds e < count_list ds best" if "e \<in> set pre" for e
  proof -
    from that s have "e \<in> set (take j (uniq ds))" by blast
    then obtain i where i: "i < j" "i < length (uniq ds)" "e = uniq ds ! i"
      by (auto simp: in_set_conv_nth)
    from j(3) i(1) have "snd (?es ! i) < snd ?r" by blast
    then show ?thesis unfolding c nth [OF i(2)] i(3) by simp
  qed
  moreover have "count_list ds e \<le> count_list ds best" if "e \<in> set ds" for e
  proof -
    from that have "e \<in> set (uniq ds)" by simp
    then obtain i where i: "i < length (uniq ds)" "e = uniq ds ! i"
      unfolding in_set_conv_nth by blast
    from all i(1) len have "snd (?es ! i) \<le> snd ?r" by simp
    then show ?thesis unfolding c nth [OF i(1)] i(2) by simp
  qed
  ultimately show ?thesis using p n by blast
qed

subsection \<open>The summary as a whole\<close>

lemma those_map_Some:
  "(\<And>k. k \<in> set ks \<Longrightarrow> f k = Some (g k)) \<Longrightarrow> those (map f ks) = Some (map g ks)"
  by (induction ks) simp_all

lemma slice0_subset: "set (slice0 xs n) \<subseteq> set xs"
  by (auto simp: slice0_def dest: in_set_takeD)

lemma chosenKeys_subset: "set (chosenKeys nowMs byDay tz days) \<subseteq> set (map fst byDay)"
proof -
  have "set (chosenKeys nowMs byDay tz days) \<subseteq> set (sort (map fst byDay))"
    unfolding chosenKeys_def Let_def
    using slice0_subset [of "filter (\<lambda>k. k \<noteq> dayKeyFromUtcWithOffset (nowMs div 1000) tz) (sort (map fst byDay))" days]
      slice0_subset [of "sort (map fst byDay)" days]
    by (auto split: if_splits)
  then show ?thesis by simp
qed

lemma chosenKeys_dayKeys:
  "set (chosenKeys nowMs (foldl (addPoint tz) [] list) tz days) \<subseteq> dayKeys tz list"
  using chosenKeys_subset [of nowMs "foldl (addPoint tz) [] list" tz days]
  by (simp only: keys_foldl_addPoint) simp

lemma summarizeForecast_Some:
  "summarizeForecast fmt nowMs list tz days =
     Some (map (\<lambda>k. summaryOf fmt k (dayAgg tz list k))
            (chosenKeys nowMs (foldl (addPoint tz) [] list) tz days))"
proof -
  have "map_option (summaryOf fmt k) (map_of (foldl (addPoint tz) [] list) k)
      = Some (summaryOf fmt k (dayAgg tz list k))"
    if "k \<in> set (chosenKeys nowMs (foldl (addPoint tz) [] list) tz days)" for k
    using that chosenKeys_dayKeys [of nowMs tz list days] by (auto simp: map_of_byDay)
  then show ?thesis
    unfolding summarizeForecast_def Let_def by (rule those_map_Some)
qed

lemma sorted_keys:
  "sort (map fst (foldl (addPoint tz) [] list)) = sorted_list_of_set (dayKeys tz list)"
proof -
  let ?ks = "map fst (foldl (addPoint tz) [] list)"
  have d: "distinct ?ks" by (rule distinct_foldl_addPoint) simp
  have "set ?ks = dayKeys tz list" by (simp only: keys_foldl_addPoint) simp
  then have "sorted_list_of_set (dayKeys tz list) = sort (remdups ?ks)"
    by (simp only: sorted_list_of_set_sort_remdups [symmetric])
  with d show ?thesis by (simp add: distinct_remdups_id)
qed

lemma finite_dayKeys [simp]: "finite (dayKeys tz list)"
  by (simp add: dayKeys_def)

lemma filter_sorted_list_of_set:
  "finite K \<Longrightarrow> filter (\<lambda>k. k \<noteq> x) (sorted_list_of_set K) = sorted_list_of_set (K - {x})"
proof (rule sorted_distinct_set_unique)
  assume "finite K"
  have "sorted (map (\<lambda>k. k) (filter (\<lambda>k. k \<noteq> x) (sorted_list_of_set K)))"
    by (rule sorted_filter) simp
  then show "sorted (filter (\<lambda>k. k \<noteq> x) (sorted_list_of_set K))" by simp
  show "distinct (filter (\<lambda>k. k \<noteq> x) (sorted_list_of_set K))" by simp
  show "sorted (sorted_list_of_set (K - {x}))" by simp
  show "distinct (sorted_list_of_set (K - {x}))" by simp
  show "set (filter (\<lambda>k. k \<noteq> x) (sorted_list_of_set K)) = set (sorted_list_of_set (K - {x}))"
    using \<open>finite K\<close> by auto
qed

lemma chosenKeys_remaining:
  assumes "0 \<le> days"
  shows "chosenKeys nowMs (foldl (addPoint tz) [] list) tz days
       = take (nat days) (sorted_list_of_set (remainingDays nowMs tz list))"
proof -
  let ?today = "dayKeyFromUtcWithOffset (nowMs div 1000) tz"
  let ?K = "dayKeys tz list"
  have f: "filter (\<lambda>k. k \<noteq> ?today) (sorted_list_of_set ?K) = sorted_list_of_set (?K - {?today})"
    by (rule filter_sorted_list_of_set) simp
  have e: "sorted_list_of_set (?K - {?today}) \<noteq> [] \<longleftrightarrow> ?K - {?today} \<noteq> {}"
    by (simp add: sorted_list_of_set_eq_Nil_iff)
  show ?thesis
    unfolding chosenKeys_def Let_def sorted_keys f e remainingDays_def
    using assms by (simp add: slice0_def)
qed

subsection \<open>Points that are passed over\<close>

lemma bump_changes: "bump t d \<noteq> t"
proof
  assume "bump t d = t"
  then have "map_of (bump t d) d = map_of t d" by simp
  then show False by (simp add: map_of_bump split: option.splits)
qed

lemma addPoint_changes:
  assumes "usable item"
  shows "addPoint tz byDay item \<noteq> byDay"
proof
  assume eq: "addPoint tz byDay item = byDay"
  have "map_of (addPoint tz byDay item) (keyOf tz item) = aggStep (map_of byDay (keyOf tz item)) item"
    using assms by (simp add: map_of_addPoint)
  with eq have fx: "aggStep (map_of byDay (keyOf tz item)) item = map_of byDay (keyOf tz item)"
    by simp
  show False
  proof (cases "map_of byDay (keyOf tz item)")
    case None
    with fx assms show False by (simp add: aggStep_def)
  next
    case (Some b)
    with fx assms have "foldPoint b (minOf item) (maxOf item) item = b"
      by (simp add: aggStep_def)
    then have "descCounts (foldPoint b (minOf item) (maxOf item) item) = descCounts b"
      by simp
    then show False by (simp add: bump_changes)
  qed
qed

lemma addPoint_unchanged_iff:
  "addPoint tz byDay item = byDay \<longleftrightarrow> itemMin item = None \<or> itemMax item = None"
proof (cases "usable item")
  case True
  with addPoint_changes [of item tz byDay] show ?thesis by (simp add: usable_def)
next
  case False
  with addPoint_skip [of item tz byDay] show ?thesis by (auto simp: usable_def)
qed

lemma foldl_addPoint_filter:
  "foldl (addPoint tz) byDay (filter usable list) = foldl (addPoint tz) byDay list"
  by (induction list arbitrary: byDay) (simp_all add: addPoint_skip)

lemma summarizeForecast_filter:
  "summarizeForecast fmt nowMs (filter usable list) tz days = summarizeForecast fmt nowMs list tz days"
  by (simp add: summarizeForecast_def foldl_addPoint_filter)

lemma itemMin_None_iff:
  "itemMin item = None \<longleftrightarrow>
     (case main item of None \<Rightarrow> True | Some m \<Rightarrow> temp_min m = None \<and> temp m = None)"
  by (simp add: itemMin_def split: option.splits)

lemma itemMax_None_iff:
  "itemMax item = None \<longleftrightarrow>
     (case main item of None \<Rightarrow> True | Some m \<Rightarrow> temp_max m = None \<and> temp m = None)"
  by (simp add: itemMax_def split: option.splits)

lemma summary_of_some_day:
  assumes "summarizeForecast fmt nowMs list tz days = Some r" and "s \<in> set r"
  shows "\<exists>k\<in>dayKeys tz list. s = summaryOf fmt k (dayAgg tz list k)"
proof -
  from assms(1) have "r = map (\<lambda>k. summaryOf fmt k (dayAgg tz list k))
      (chosenKeys nowMs (foldl (addPoint tz) [] list) tz days)"
    by (simp add: summarizeForecast_Some)
  with assms(2) obtain k where "k \<in> set (chosenKeys nowMs (foldl (addPoint tz) [] list) tz days)"
    and "s = summaryOf fmt k (dayAgg tz list k)"
    by auto
  with chosenKeys_dayKeys [of nowMs tz list days] show ?thesis by blast
qed

text \<open>
  C2 (as amended). The loop passes over a point exactly when the point has no usable
  minimum or no usable maximum, one of the two being enough; the usable minimum is
  \<^verbatim>\<open>temp_min\<close> and, failing that, \<^verbatim>\<open>temp\<close>, and likewise for the maximum. A point that
  is passed over leaves the map of days as it is, any other point changes it. The summary
  always returns, it is the summary of the list without the points passed over, and every
  day it reports has a usable point: a day whose points are all passed over is absent.
\<close>

theorem skipped_points:
  "(addPoint tz byDay item = byDay \<longleftrightarrow> itemMin item = None \<or> itemMax item = None) \<and>
   (itemMin item = None \<longleftrightarrow>
      (case main item of None \<Rightarrow> True | Some m \<Rightarrow> temp_min m = None \<and> temp m = None)) \<and>
   (itemMax item = None \<longleftrightarrow>
      (case main item of None \<Rightarrow> True | Some m \<Rightarrow> temp_max m = None \<and> temp m = None)) \<and>
   (\<exists>r. summarizeForecast fmt nowMs list tz days = Some r \<and>
        (\<forall>s\<in>set r. \<exists>k\<in>dayKeys tz list. day_label s = labelFromKey fmt k)) \<and>
   summarizeForecast fmt nowMs list tz days =
     summarizeForecast fmt nowMs (filter usable list) tz days \<and>
   set (chosenKeys nowMs (foldl (addPoint tz) [] list) tz days) \<subseteq> dayKeys tz list \<and>
   dayKeys tz list = set (map (keyOf tz) (filter usable list))"
proof -
  obtain r where r: "summarizeForecast fmt nowMs list tz days = Some r"
    by (simp add: summarizeForecast_Some)
  have "\<exists>k\<in>dayKeys tz list. day_label s = labelFromKey fmt k" if "s \<in> set r" for s
    using summary_of_some_day [OF r that] by (auto simp: summaryOf_def)
  with r have "\<exists>r. summarizeForecast fmt nowMs list tz days = Some r \<and>
        (\<forall>s\<in>set r. \<exists>k\<in>dayKeys tz list. day_label s = labelFromKey fmt k)"
    by blast
  then show ?thesis
    using addPoint_unchanged_iff [of tz byDay item] itemMin_None_iff [of item]
      itemMax_None_iff [of item] summarizeForecast_filter [of fmt nowMs list tz days]
      chosenKeys_dayKeys [of nowMs tz list days] dayKeys_def [of tz list]
    by (simp only: simp_thms)
qed

theorem skipped_points_witness:
  "addPoint 0 []
     \<lparr>dt = 0, main = Some \<lparr>temp = None, temp_min = Some 50, temp_max = None,
        feels_like = None, humidity = None\<rparr>, weather = None, pop = None\<rparr> = [] \<and>
   addPoint 0 []
     \<lparr>dt = 86400, main = Some \<lparr>temp = Some 60, temp_min = None, temp_max = Some 70,
        feels_like = None, humidity = None\<rparr>,
      weather = Some [\<lparr>description = Some ''rain''\<rparr>], pop = None\<rparr> \<noteq> [] \<and>
   summarizeForecast (\<lambda>x. ''day'') 0
     [\<lparr>dt = 0, main = Some \<lparr>temp = None, temp_min = Some 50, temp_max = None,
        feels_like = None, humidity = None\<rparr>, weather = None, pop = None\<rparr>,
      \<lparr>dt = 86400, main = Some \<lparr>temp = Some 60, temp_min = None, temp_max = Some 70,
        feels_like = None, humidity = None\<rparr>,
      weather = Some [\<lparr>description = Some ''rain''\<rparr>], pop = None\<rparr>] 0 3
   = summarizeForecast (\<lambda>x. ''day'') 0
     [\<lparr>dt = 86400, main = Some \<lparr>temp = Some 60, temp_min = None, temp_max = Some 70,
        feels_like = None, humidity = None\<rparr>,
      weather = Some [\<lparr>description = Some ''rain''\<rparr>], pop = None\<rparr>] 0 3"
proof -
  let ?p0 = "\<lparr>dt = 0, main = Some \<lparr>temp = None, temp_min = Some 50, temp_max = None,
        feels_like = None, humidity = None\<rparr>, weather = None, pop = None\<rparr>"
  let ?p1 = "\<lparr>dt = 86400, main = Some \<lparr>temp = Some 60, temp_min = None, temp_max = Some 70,
        feels_like = None, humidity = None\<rparr>,
      weather = Some [\<lparr>description = Some ''rain''\<rparr>], pop = None\<rparr>"
  have a: "itemMax ?p0 = None" by (simp add: itemMax_def)
  have b: "\<not> (itemMin ?p1 = None \<or> itemMax ?p1 = None)" by (simp add: itemMin_def itemMax_def)
  have c: "filter usable [?p0, ?p1] = [?p1]"
    by (simp add: usable_def itemMin_def itemMax_def)
  have "addPoint 0 [] ?p0 = []"
    using skipped_points [of 0 "[]" ?p0 "\<lambda>x. ''day''" 0 "[?p0, ?p1]" 3] a by blast
  moreover have "addPoint 0 [] ?p1 \<noteq> []"
    using skipped_points [of 0 "[]" ?p1 "\<lambda>x. ''day''" 0 "[?p0, ?p1]" 3] b by blast
  moreover have "summarizeForecast (\<lambda>x. ''day'') 0 [?p0, ?p1] 0 3
      = summarizeForecast (\<lambda>x. ''day'') 0 (filter usable [?p0, ?p1]) 0 3"
    using skipped_points [of 0 "[]" ?p0 "\<lambda>x. ''day''" 0 "[?p0, ?p1]" 3] by blast
  ultimately show ?thesis unfolding c by blast
qed

text \<open>
  C2 as it is worded fails: a point with a \<^verbatim>\<open>temp_min\<close> but neither \<^verbatim>\<open>temp\<close> nor
  \<^verbatim>\<open>temp_max\<close> has a usable minimum, and the loop passes over it all the same.
\<close>

theorem skip_needs_both_counterexample:
  "itemMin \<lparr>dt = 0,
            main = Some \<lparr>temp = None, temp_min = Some 50, temp_max = None,
                         feels_like = None, humidity = None\<rparr>,
            weather = None, pop = None\<rparr> = Some 50 \<and>
   addPoint 0 []
     \<lparr>dt = 0,
      main = Some \<lparr>temp = None, temp_min = Some 50, temp_max = None,
                   feels_like = None, humidity = None\<rparr>,
      weather = None, pop = None\<rparr> = []"
  by (simp add: itemMin_def itemMax_def addPoint_def)

subsection \<open>The days reported\<close>

lemma digitChar_less: "i < 10 \<Longrightarrow> j < 10 \<Longrightarrow> digitChar i < digitChar j \<longleftrightarrow> i < j"
  by (simp add: digitChar_def less_char_def)

lemma digitChar_eq: "i < 10 \<Longrightarrow> j < 10 \<Longrightarrow> digitChar i = digitChar j \<longleftrightarrow> i = j"
proof -
  assume "i < 10" "j < 10"
  then have "(of_char (digitChar i) :: nat) = 48 + i" "(of_char (digitChar j) :: nat) = 48 + j"
    by (simp_all add: digitChar_def)
  then show ?thesis by (metis add_left_cancel)
qed

lemma digitChar_zero: "digitChar 0 = CHR ''0''"
  unfolding digitChar_def by code_simp

lemma digits_one: "n < 10 \<Longrightarrow> digits n = [digitChar n]"
  by (subst digits.simps) (simp add: digitChar_def)

lemma digits_two: "10 \<le> n \<Longrightarrow> n < 100 \<Longrightarrow> digits n = [digitChar (n div 10), digitChar (n mod 10)]"
  by (subst digits.simps) (simp add: digits_one digitChar_def)

lemma digits_three:
  "100 \<le> n \<Longrightarrow> n < 1000 \<Longrightarrow>
   digits n = [digitChar (n div 100), digitChar (n div 10 mod 10), digitChar (n mod 10)]"
proof -
  assume a: "100 \<le> n" "n < 1000"
  then have "10 \<le> n div 10" "n div 10 < 100" by simp_all
  then have "digits (n div 10) = [digitChar (n div 10 div 10), digitChar (n div 10 mod 10)]"
    by (rule digits_two)
  moreover have "n div 10 div 10 = n div 100" by (simp add: div_mult2_eq [symmetric])
  ultimately show ?thesis using a by (subst digits.simps) (simp add: digitChar_def)
qed

lemma digits_four:
  "1000 \<le> n \<Longrightarrow> n < 10000 \<Longrightarrow>
   digits n = [digitChar (n div 1000), digitChar (n div 100 mod 10), digitChar (n div 10 mod 10),
               digitChar (n mod 10)]"
proof -
  assume a: "1000 \<le> n" "n < 10000"
  then have "100 \<le> n div 10" "n div 10 < 1000" by simp_all
  then have "digits (n div 10) =
      [digitChar (n div 10 div 100), digitChar (n div 10 div 10 mod 10), digitChar (n div 10 mod 10)]"
    by (rule digits_three)
  moreover have "n div 10 div 100 = n div 1000" "n div 10 div 10 = n div 100"
    by (simp_all add: div_mult2_eq [symmetric])
  ultimately show ?thesis using a by (subst digits.simps) (simp add: digitChar_def)
qed

lemma two_places:
  assumes "0 \<le> m" and "m < 100"
  shows "padStart2 (numToString m) = [digitChar (nat m div 10), digitChar (nat m mod 10)]"
proof (cases "m < 10")
  case True
  with assms have "digits (nat m) = [digitChar (nat m)]" by (intro digits_one) simp
  with True assms show ?thesis
    by (simp add: padStart2_def numToString_def digitChar_zero [symmetric])
next
  case False
  with assms have "digits (nat m) = [digitChar (nat m div 10), digitChar (nat m mod 10)]"
    by (intro digits_two) simp_all
  with assms show ?thesis by (simp add: padStart2_def numToString_def)
qed

lemma four_places:
  assumes "1000 \<le> y" and "y < 10000"
  shows "numToString y =
     [digitChar (nat y div 1000), digitChar (nat y div 100 mod 10),
      digitChar (nat y div 10 mod 10), digitChar (nat y mod 10)]"
proof -
  from assms have "digits (nat y) =
     [digitChar (nat y div 1000), digitChar (nat y div 100 mod 10),
      digitChar (nat y div 10 mod 10), digitChar (nat y mod 10)]"
    by (intro digits_four) simp_all
  with assms show ?thesis by (simp add: numToString_def)
qed

lemma lex_digits:
  fixes a b c d :: nat
  assumes "b < 10" and "d < 10"
  shows "(a < c \<or> a = c \<and> (b < d \<or> b = d \<and> P)) \<longleftrightarrow>
         (10 * a + b < 10 * c + d \<or> 10 * a + b = 10 * c + d \<and> P)"
proof -
  consider "a < c" | "a = c" | "c < a" by linarith
  then show ?thesis
  proof cases
    case 1
    then have "10 * a + b < 10 * c + d" using assms by linarith
    with 1 show ?thesis by simp
  next
    case 2
    then show ?thesis by simp
  next
    case 3
    then have "10 * c + d < 10 * a + b" using assms by linarith
    with 3 show ?thesis by simp
  qed
qed

lemma lex_div:
  fixes n n' :: nat
  shows "(n div 10 < n' div 10 \<or> n div 10 = n' div 10 \<and>
            (n mod 10 < n' mod 10 \<or> n mod 10 = n' mod 10 \<and> P)) \<longleftrightarrow>
         (n < n' \<or> n = n' \<and> P)"
proof -
  have "(n div 10 < n' div 10 \<or> n div 10 = n' div 10 \<and>
            (n mod 10 < n' mod 10 \<or> n mod 10 = n' mod 10 \<and> P)) \<longleftrightarrow>
        (10 * (n div 10) + n mod 10 < 10 * (n' div 10) + n' mod 10 \<or>
         10 * (n div 10) + n mod 10 = 10 * (n' div 10) + n' mod 10 \<and> P)"
    by (rule lex_digits) simp_all
  then show ?thesis by (simp only: mult_div_mod_eq)
qed

lemma lex_four:
  fixes n n' :: nat
  shows "(n div 1000 < n' div 1000 \<or> n div 1000 = n' div 1000 \<and>
           (n div 100 mod 10 < n' div 100 mod 10 \<or> n div 100 mod 10 = n' div 100 mod 10 \<and>
             (n div 10 mod 10 < n' div 10 mod 10 \<or> n div 10 mod 10 = n' div 10 mod 10 \<and>
               (n mod 10 < n' mod 10 \<or> n mod 10 = n' mod 10 \<and> P)))) \<longleftrightarrow>
         (n < n' \<or> n = n' \<and> P)"
proof -
  have a: "n div 1000 = n div 100 div 10" "n' div 1000 = n' div 100 div 10"
    by (simp_all add: div_mult2_eq [symmetric])
  have b: "n div 100 = n div 10 div 10" "n' div 100 = n' div 10 div 10"
    by (simp_all add: div_mult2_eq [symmetric])
  show ?thesis
    unfolding a lex_div [of "n div 100" "n' div 100"]
    unfolding b lex_div [of "n div 10" "n' div 10"]
    unfolding lex_div [of n n'] ..
qed

lemma dateKey_order:
  assumes "1000 \<le> y" "y < 10000" "0 \<le> m" "m < 100" "0 \<le> d" "d < 100"
    and "1000 \<le> y'" "y' < 10000" "0 \<le> m'" "m' < 100" "0 \<le> d'" "d' < 100"
  shows "dateKey y m d \<le> dateKey y' m' d' \<longleftrightarrow>
         y < y' \<or> y = y' \<and> (m < m' \<or> m = m' \<and> d \<le> d')"
proof -
  have dlt: "digitChar (i mod 10) < digitChar (j mod 10) \<longleftrightarrow> i mod 10 < j mod 10" for i j
    by (rule digitChar_less) simp_all
  have deq: "digitChar (i mod 10) = digitChar (j mod 10) \<longleftrightarrow> i mod 10 = j mod 10" for i j
    by (rule digitChar_eq) simp_all
  have ylt: "digitChar (nat y div 1000) < digitChar (nat y' div 1000) \<longleftrightarrow> nat y div 1000 < nat y' div 1000"
    using assms by (intro digitChar_less) simp_all
  have yeq: "digitChar (nat y div 1000) = digitChar (nat y' div 1000) \<longleftrightarrow> nat y div 1000 = nat y' div 1000"
    using assms by (intro digitChar_eq) simp_all
  have mlt: "digitChar (nat m div 10) < digitChar (nat m' div 10) \<longleftrightarrow> nat m div 10 < nat m' div 10"
    using assms by (intro digitChar_less) simp_all
  have meq: "digitChar (nat m div 10) = digitChar (nat m' div 10) \<longleftrightarrow> nat m div 10 = nat m' div 10"
    using assms by (intro digitChar_eq) simp_all
  have dlt': "digitChar (nat d div 10) < digitChar (nat d' div 10) \<longleftrightarrow> nat d div 10 < nat d' div 10"
    using assms by (intro digitChar_less) simp_all
  have deq': "digitChar (nat d div 10) = digitChar (nat d' div 10) \<longleftrightarrow> nat d div 10 = nat d' div 10"
    using assms by (intro digitChar_eq) simp_all
  have "dateKey y m d \<le> dateKey y' m' d' \<longleftrightarrow>
      (nat y < nat y' \<or> nat y = nat y' \<and>
        (nat m < nat m' \<or> nat m = nat m' \<and> (nat d < nat d' \<or> nat d = nat d' \<and> True)))"
    unfolding dateKey_def four_places [OF assms(1,2)] four_places [OF assms(7,8)]
      two_places [OF assms(3,4)] two_places [OF assms(5,6)]
      two_places [OF assms(9,10)] two_places [OF assms(11,12)]
    apply (simp only: append.simps Cons_le_Cons dlt deq ylt yeq mlt meq dlt' deq'
        less_irrefl simp_thms)
    apply (simp only: lex_div lex_four)
    apply simp
    done
  also have "\<dots> \<longleftrightarrow> y < y' \<or> y = y' \<and> (m < m' \<or> m = m' \<and> d \<le> d')"
    using assms by auto
  finally show ?thesis .
qed

lemma dayKey_dateKey:
  assumes "- 8640000000000000 \<le> (dtSeconds + tz) * 1000"
    and "(dtSeconds + tz) * 1000 \<le> 8640000000000000"
  shows "dayKeyFromUtcWithOffset dtSeconds tz =
     dateKey (fst (civil ((dtSeconds + tz) * 1000 div 86400000)))
       (fst (snd (civil ((dtSeconds + tz) * 1000 div 86400000))))
       (snd (snd (civil ((dtSeconds + tz) * 1000 div 86400000))))"
  using assms
  by (simp add: dayKeyFromUtcWithOffset_def dateKey_def Let_def newDate_def getUTCFullYear_def
      getUTCMonth_def getUTCDate_def numberToString_def)

lemma dayKey_invalid:
  assumes "\<not> (- 8640000000000000 \<le> (dtSeconds + tz) * 1000 \<and>
              (dtSeconds + tz) * 1000 \<le> 8640000000000000)"
  shows "dayKeyFromUtcWithOffset dtSeconds tz = ''NaN-NaN-NaN''"
proof -
  have "newDate ((dtSeconds + tz) * 1000) = None"
    unfolding newDate_def using assms by (simp only: if_False)
  then show ?thesis
    by (simp add: dayKeyFromUtcWithOffset_def Let_def getUTCFullYear_def
        getUTCMonth_def getUTCDate_def numberToString_def padStart2_def)
qed

text \<open>
  C5. With \<open>days\<close> not negative, the summary returns. Today is the day key of the clock
  \<open>nowMs\<close> under the offset of the points. The days reported are all days with a usable
  point except today, or all of them when today is the only one; they come in ascending
  order of their keys, and only the first \<open>days\<close> of them are reported, in that order.
  Within the range of \<^verbatim>\<open>Date\<close> a day key is the key of the date of its day, beyond
  it the key is \<open>NaN-NaN-NaN\<close>; for dates with a year of four digits the order of the
  keys is the order of the dates.
\<close>

theorem summarizeForecast_days:
  assumes "0 \<le> days"
  shows "\<exists>r. summarizeForecast fmt nowMs list tz days = Some r \<and>
           r = map (\<lambda>k. summaryOf fmt k (dayAgg tz list k))
                 (take (nat days) (sorted_list_of_set (remainingDays nowMs tz list))) \<and>
           map day_label r =
             map (labelFromKey fmt)
               (take (nat days) (sorted_list_of_set (remainingDays nowMs tz list))) \<and>
           length r \<le> nat days \<and>
           remainingDays nowMs tz list =
             (if dayKeys tz list - {dayKeyFromUtcWithOffset (nowMs div 1000) tz} \<noteq> {}
              then dayKeys tz list - {dayKeyFromUtcWithOffset (nowMs div 1000) tz}
              else dayKeys tz list) \<and>
           (- 8640000000000000 \<le> (dtSeconds + tz) * 1000 \<and>
            (dtSeconds + tz) * 1000 \<le> 8640000000000000 \<longrightarrow>
              dayKeyFromUtcWithOffset dtSeconds tz =
                dateKey (fst (civil ((dtSeconds + tz) * 1000 div 86400000)))
                  (fst (snd (civil ((dtSeconds + tz) * 1000 div 86400000))))
                  (snd (snd (civil ((dtSeconds + tz) * 1000 div 86400000))))) \<and>
           (\<not> (- 8640000000000000 \<le> (dtSeconds + tz) * 1000 \<and>
               (dtSeconds + tz) * 1000 \<le> 8640000000000000) \<longrightarrow>
              dayKeyFromUtcWithOffset dtSeconds tz = ''NaN-NaN-NaN'') \<and>
           (1000 \<le> y \<and> y < 10000 \<and> 1 \<le> m \<and> m \<le> 12 \<and> 1 \<le> d \<and> d \<le> 31 \<and>
            1000 \<le> y' \<and> y' < 10000 \<and> 1 \<le> m' \<and> m' \<le> 12 \<and> 1 \<le> d' \<and> d' \<le> 31 \<longrightarrow>
              (dateKey y m d \<le> dateKey y' m' d' \<longleftrightarrow>
                 y < y' \<or> y = y' \<and> (m < m' \<or> m = m' \<and> d \<le> d')))"
proof -
  let ?ks = "take (nat days) (sorted_list_of_set (remainingDays nowMs tz list))"
  let ?r = "map (\<lambda>k. summaryOf fmt k (dayAgg tz list k)) ?ks"
  have "summarizeForecast fmt nowMs list tz days = Some ?r"
    by (simp only: summarizeForecast_Some chosenKeys_remaining [OF assms])
  moreover have "map day_label ?r = map (labelFromKey fmt) ?ks"
    by (simp add: summaryOf_def comp_def)
  moreover have "length ?r \<le> nat days" by simp
  moreover have "remainingDays nowMs tz list =
             (if dayKeys tz list - {dayKeyFromUtcWithOffset (nowMs div 1000) tz} \<noteq> {}
              then dayKeys tz list - {dayKeyFromUtcWithOffset (nowMs div 1000) tz}
              else dayKeys tz list)"
    by (simp add: remainingDays_def Let_def)
  moreover have "dateKey y m d \<le> dateKey y' m' d' \<longleftrightarrow>
      y < y' \<or> y = y' \<and> (m < m' \<or> m = m' \<and> d \<le> d')"
    if "1000 \<le> y \<and> y < 10000 \<and> 1 \<le> m \<and> m \<le> 12 \<and> 1 \<le> d \<and> d \<le> 31 \<and>
        1000 \<le> y' \<and> y' < 10000 \<and> 1 \<le> m' \<and> m' \<le> 12 \<and> 1 \<le> d' \<and> d' \<le> 31"
    using that by (intro dateKey_order) simp_all
  ultimately show ?thesis
    using dayKey_dateKey [of dtSeconds tz] dayKey_invalid [of dtSeconds tz] by blast
qed

theorem summarizeForecast_days_witness:
  "summarizeForecast dayOfMonth 2509200000 monthEnd 0 2 =
     Some [\<lparr>day_label = ''31'', day_min = 39, day_max = 53, day_desc = ''fog'', day_pop = 0\<rparr>,
           \<lparr>day_label = ''1'', day_min = 42, day_max = 52, day_desc = ''sun'', day_pop = 0\<rparr>] \<and>
   map (\<lambda>k. summaryOf dayOfMonth k (dayAgg 0 monthEnd k))
     (take 2 (sorted_list_of_set (remainingDays 2509200000 0 monthEnd))) =
     [\<lparr>day_label = ''31'', day_min = 39, day_max = 53, day_desc = ''fog'', day_pop = 0\<rparr>,
      \<lparr>day_label = ''1'', day_min = 42, day_max = 52, day_desc = ''sun'', day_pop = 0\<rparr>] \<and>
   map (labelFromKey dayOfMonth)
     (take 2 (sorted_list_of_set (remainingDays 2509200000 0 monthEnd))) = [''31'', ''1''] \<and>
   dayKeyFromUtcWithOffset (2509200000 div 1000) 0 = ''1970-01-30'' \<and>
   dayKeys 0 monthEnd =
     {''1970-01-30'', ''1970-01-31'', ''1970-02-01'', ''1970-02-02'', ''1970-02-03''} \<and>
   remainingDays 2509200000 0 monthEnd =
     {''1970-01-31'', ''1970-02-01'', ''1970-02-02'', ''1970-02-03''} \<and>
   sorted_list_of_set (remainingDays 2509200000 0 monthEnd) =
     [''1970-01-31'', ''1970-02-01'', ''1970-02-02'', ''1970-02-03''] \<and>
   summarizeForecast dayOfMonth 2509200000 [pointAt 2505600 41 51 ''rain''] 0 2 =
     Some [\<lparr>day_label = ''30'', day_min = 41, day_max = 51, day_desc = ''rain'', day_pop = 0\<rparr>] \<and>
   remainingDays 2509200000 0 [pointAt 2505600 41 51 ''rain''] = {''1970-01-30''} \<and>
   dayKeyFromUtcWithOffset 2592000 0 = dateKey 1970 1 31 \<and>
   dayKeyFromUtcWithOffset 8640000000001 0 = ''NaN-NaN-NaN'' \<and>
   dateKey 1970 1 31 \<le> dateKey 1970 2 1 \<and> \<not> dateKey 1970 2 1 \<le> dateKey 1970 1 31 \<and>
   dayKeyFromUtcWithOffset 1709251199 0 = ''2024-02-29'' \<and>
   dayKeyFromUtcWithOffset 1709251199 3600 = ''2024-03-01'' \<and>
   dayKeyFromUtcWithOffset (- 1) 0 = ''1969-12-31''"
proof -
  let ?R = "[\<lparr>day_label = ''31'', day_min = 39, day_max = 53, day_desc = ''fog'', day_pop = 0\<rparr>,
           \<lparr>day_label = ''1'', day_min = 42, day_max = 52, day_desc = ''sun'', day_pop = 0\<rparr>]"
  let ?T = "[\<lparr>day_label = ''30'', day_min = 41, day_max = 51, day_desc = ''rain'', day_pop = 0\<rparr>]"
  have h: "(0 :: int) \<le> 2" by simp
  have n: "nat 2 = 2" by simp
  have e: "summarizeForecast dayOfMonth 2509200000 monthEnd 0 2 = Some ?R"
    by code_simp
  have t: "dayKeyFromUtcWithOffset (2509200000 div 1000) 0 = ''1970-01-30''"
    by code_simp
  have k: "dayKeys 0 monthEnd =
     {''1970-01-30'', ''1970-01-31'', ''1970-02-01'', ''1970-02-02'', ''1970-02-03''}"
    by code_simp
  have c: "civil (2592000 * 1000 div 86400000) = (1970, 1, 31)"
    by code_simp
  from summarizeForecast_days [OF h, of dayOfMonth 2509200000 monthEnd 0 2592000
      1970 1 31 1970 2 1]
  obtain r where a: "summarizeForecast dayOfMonth 2509200000 monthEnd 0 2 = Some r"
    and b: "r = map (\<lambda>k. summaryOf dayOfMonth k (dayAgg 0 monthEnd k))
                 (take (nat 2) (sorted_list_of_set (remainingDays 2509200000 0 monthEnd)))"
    and l: "map day_label r = map (labelFromKey dayOfMonth)
                 (take (nat 2) (sorted_list_of_set (remainingDays 2509200000 0 monthEnd)))"
    and rd: "remainingDays 2509200000 0 monthEnd =
             (if dayKeys 0 monthEnd - {dayKeyFromUtcWithOffset (2509200000 div 1000) 0} \<noteq> {}
              then dayKeys 0 monthEnd - {dayKeyFromUtcWithOffset (2509200000 div 1000) 0}
              else dayKeys 0 monthEnd)"
    and dk: "- 8640000000000000 \<le> (2592000 + 0) * (1000 :: int) \<and>
            (2592000 + 0) * 1000 \<le> (8640000000000000 :: int) \<longrightarrow>
              dayKeyFromUtcWithOffset 2592000 0 =
                dateKey (fst (civil ((2592000 + 0) * 1000 div 86400000)))
                  (fst (snd (civil ((2592000 + 0) * 1000 div 86400000))))
                  (snd (snd (civil ((2592000 + 0) * 1000 div 86400000))))"
    and o: "1000 \<le> (1970 :: int) \<and> (1970 :: int) < 10000 \<and> 1 \<le> (1 :: int) \<and> (1 :: int) \<le> 12 \<and>
            1 \<le> (31 :: int) \<and> (31 :: int) \<le> 31 \<and>
            1000 \<le> (1970 :: int) \<and> (1970 :: int) < 10000 \<and> 1 \<le> (2 :: int) \<and> (2 :: int) \<le> 12 \<and>
            1 \<le> (1 :: int) \<and> (1 :: int) \<le> 31 \<longrightarrow>
              (dateKey 1970 1 31 \<le> dateKey 1970 2 1 \<longleftrightarrow>
                 (1970 :: int) < 1970 \<or> (1970 :: int) = 1970 \<and> ((1 :: int) < 2 \<or> (1 :: int) = 2 \<and> (31 :: int) \<le> 1))"
    by blast
  have r: "r = ?R" using a e by simp
  have c1: "map (\<lambda>k. summaryOf dayOfMonth k (dayAgg 0 monthEnd k))
     (take 2 (sorted_list_of_set (remainingDays 2509200000 0 monthEnd))) = ?R"
    using b unfolding r n by (rule sym)
  have c2: "map (labelFromKey dayOfMonth)
     (take 2 (sorted_list_of_set (remainingDays 2509200000 0 monthEnd))) = [''31'', ''1'']"
    using l unfolding r n by simp
  have c3: "remainingDays 2509200000 0 monthEnd =
     {''1970-01-31'', ''1970-02-01'', ''1970-02-02'', ''1970-02-03''}"
    unfolding rd t k by code_simp
  have c4: "sorted_list_of_set (remainingDays 2509200000 0 monthEnd) =
     [''1970-01-31'', ''1970-02-01'', ''1970-02-02'', ''1970-02-03'']"
    unfolding c3 by code_simp
  have e': "summarizeForecast dayOfMonth 2509200000 [pointAt 2505600 41 51 ''rain''] 0 2 = Some ?T"
    by code_simp
  have k': "dayKeys 0 [pointAt 2505600 41 51 ''rain''] = {''1970-01-30''}"
    by code_simp
  from summarizeForecast_days [OF h, of dayOfMonth 2509200000 "[pointAt 2505600 41 51 ''rain'']" 0
      8640000000001 1970 2 1 1970 1 31]
  have rd': "remainingDays 2509200000 0 [pointAt 2505600 41 51 ''rain''] =
             (if dayKeys 0 [pointAt 2505600 41 51 ''rain''] -
                  {dayKeyFromUtcWithOffset (2509200000 div 1000) 0} \<noteq> {}
              then dayKeys 0 [pointAt 2505600 41 51 ''rain''] -
                  {dayKeyFromUtcWithOffset (2509200000 div 1000) 0}
              else dayKeys 0 [pointAt 2505600 41 51 ''rain''])"
    and nan: "\<not> (- 8640000000000000 \<le> (8640000000001 + 0) * (1000 :: int) \<and>
               (8640000000001 + 0) * 1000 \<le> (8640000000000000 :: int)) \<longrightarrow>
              dayKeyFromUtcWithOffset 8640000000001 0 = ''NaN-NaN-NaN''"
    and o': "1000 \<le> (1970 :: int) \<and> (1970 :: int) < 10000 \<and> 1 \<le> (2 :: int) \<and> (2 :: int) \<le> 12 \<and>
            1 \<le> (1 :: int) \<and> (1 :: int) \<le> 31 \<and>
            1000 \<le> (1970 :: int) \<and> (1970 :: int) < 10000 \<and> 1 \<le> (1 :: int) \<and> (1 :: int) \<le> 12 \<and>
            1 \<le> (31 :: int) \<and> (31 :: int) \<le> 31 \<longrightarrow>
              (dateKey 1970 2 1 \<le> dateKey 1970 1 31 \<longleftrightarrow>
                 (1970 :: int) < 1970 \<or> (1970 :: int) = 1970 \<and> ((2 :: int) < 1 \<or> (2 :: int) = 1 \<and> (1 :: int) \<le> 31))"
    by blast+
  have c5: "remainingDays 2509200000 0 [pointAt 2505600 41 51 ''rain''] = {''1970-01-30''}"
    unfolding rd' t k' by simp
  have c6: "dayKeyFromUtcWithOffset 2592000 0 = dateKey 1970 1 31"
    using dk unfolding add_0_right c by simp
  have c7: "dayKeyFromUtcWithOffset 8640000000001 0 = ''NaN-NaN-NaN''"
    using nan by simp
  have c8: "dateKey 1970 1 31 \<le> dateKey 1970 2 1" using o by simp
  have c9: "\<not> dateKey 1970 2 1 \<le> dateKey 1970 1 31" using o' by simp
  have c10: "dayKeyFromUtcWithOffset 1709251199 0 = ''2024-02-29''"
    "dayKeyFromUtcWithOffset 1709251199 3600 = ''2024-03-01''"
    "dayKeyFromUtcWithOffset (- 1) 0 = ''1969-12-31''"
    by code_simp+
  show ?thesis
    by (intro conjI e c1 c2 t k c3 c4 e' c5 c6 c7 c8 c9 c10)
qed

subsection \<open>Description and precipitation of a day\<close>

lemma two_descriptions:
  assumes "[a, b] = pre @ d # post" and "d \<notin> set pre" and "a \<noteq> b"
    and "\<forall>e\<in>set pre. count_list [a, b] e < count_list [a, b] d"
  shows "d = a"
proof (cases pre)
  case Nil
  with assms(1) show ?thesis by simp
next
  case (Cons x xs)
  with assms(1) have "x = a" by simp
  with Cons assms(4) have "count_list [a, b] a < count_list [a, b] d" by simp
  moreover have "d \<in> set [a, b]" using assms(1) by (metis in_set_conv_decomp)
  ultimately show ?thesis using assms(3) by (auto split: if_splits)
qed

lemma Max_with_zero:
  fixes xs :: "real list"
  assumes "xs \<noteq> []" and "\<forall>x\<in>set xs. 0 \<le> x"
  shows "Max (set (0 # xs)) = Max (set xs)"
proof -
  have "Max (set xs) \<in> set xs" using assms(1) by (intro Max_in) simp_all
  with assms(2) have "0 \<le> Max (set xs)" by blast
  moreover have "Max (set (0 # xs)) = max 0 (Max (set xs))"
    using assms(1) by simp
  ultimately show ?thesis by simp
qed

text \<open>
  C9. Every summary that is returned is that of a day \<open>k\<close> with usable points. Its
  description occurs among the descriptions of these points, no description occurs more
  often, and every description met before its first occurrence occurs less often: it is
  the first met among the most frequent. For a day of two points with different
  descriptions it is the description of the first. Its \<open>pop\<close> is the greatest of 0 and
  the probabilities of the points, a point without a numeric probability counting as 0;
  when no probability is negative this is the greatest probability of the day.
\<close>

theorem summary_desc_and_pop:
  assumes "summarizeForecast fmt nowMs list tz days = Some r" and "s \<in> set r"
  shows "\<exists>k\<in>dayKeys tz list.
           day_label s = labelFromKey fmt k \<and>
           (\<exists>pre post.
              map itemDesc (dayPoints tz list k) = pre @ day_desc s # post \<and>
              day_desc s \<notin> set pre \<and>
              (\<forall>e\<in>set pre. count_list (map itemDesc (dayPoints tz list k)) e
                             < count_list (map itemDesc (dayPoints tz list k)) (day_desc s)) \<and>
              (\<forall>e\<in>set (map itemDesc (dayPoints tz list k)).
                 count_list (map itemDesc (dayPoints tz list k)) e
                   \<le> count_list (map itemDesc (dayPoints tz list k)) (day_desc s))) \<and>
           (\<forall>p1 p2. dayPoints tz list k = [p1, p2] \<and> itemDesc p1 \<noteq> itemDesc p2 \<longrightarrow>
              day_desc s = itemDesc p1) \<and>
           day_pop s =
             Max (set (0 # map (\<lambda>p. case pop p of None \<Rightarrow> 0 | Some v \<Rightarrow> v) (dayPoints tz list k))) \<and>
           ((\<forall>p\<in>set (dayPoints tz list k). case pop p of None \<Rightarrow> True | Some v \<Rightarrow> 0 \<le> v) \<longrightarrow>
              day_pop s =
                Max (set (map (\<lambda>p. case pop p of None \<Rightarrow> 0 | Some v \<Rightarrow> v) (dayPoints tz list k))))"
proof -
  from summary_of_some_day [OF assms] obtain k where k: "k \<in> dayKeys tz list"
    and s: "s = summaryOf fmt k (dayAgg tz list k)"
    by blast
  let ?pts = "dayPoints tz list k"
  let ?ds = "map itemDesc ?pts"
  let ?pop = "\<lambda>p. case pop p of None \<Rightarrow> 0 | Some v \<Rightarrow> v"
  have pop_eq: "map itemPop ?pts = map ?pop ?pts"
    by (simp add: itemPop_def)
  have ne: "?pts \<noteq> []" using k by (simp add: dayPoints_empty_iff)
  have label: "day_label s = labelFromKey fmt k" by (simp add: s summaryOf_def)
  have desc: "day_desc s = topDescOf (foldl bump [] ?ds)"
    by (simp add: s summaryOf_def dayAgg_fields(4) [OF k])
  have first: "\<exists>pre post. ?ds = pre @ day_desc s # post \<and> day_desc s \<notin> set pre \<and>
      (\<forall>e\<in>set pre. count_list ?ds e < count_list ?ds (day_desc s)) \<and>
      (\<forall>e\<in>set ?ds. count_list ?ds e \<le> count_list ?ds (day_desc s))"
    unfolding desc using ne by (intro topDesc_first_max) simp
  have two: "day_desc s = itemDesc p1" if "?pts = [p1, p2]" "itemDesc p1 \<noteq> itemDesc p2" for p1 p2
  proof -
    from first obtain pre post where "?ds = pre @ day_desc s # post" "day_desc s \<notin> set pre"
      "\<forall>e\<in>set pre. count_list ?ds e < count_list ?ds (day_desc s)"
      by blast
    then show ?thesis unfolding that(1) using that(2)
      by (intro two_descriptions [of "itemDesc p1" "itemDesc p2" pre _ post]) simp_all
  qed
  have pm: "day_pop s = Max (set (0 # map ?pop ?pts))"
    by (simp add: s summaryOf_def dayAgg_fields(1) [OF k] pop_eq del: set_simps list.set)
  have pm': "day_pop s = Max (set (map ?pop ?pts))"
    if "\<forall>p\<in>set ?pts. case pop p of None \<Rightarrow> True | Some v \<Rightarrow> 0 \<le> v"
  proof -
    have "\<forall>x\<in>set (map ?pop ?pts). 0 \<le> x"
      using that by (auto split: option.splits)
    with ne show ?thesis unfolding pm by (intro Max_with_zero) simp_all
  qed
  from k label first two pm pm' show ?thesis by blast
qed

theorem summary_desc_and_pop_witness:
  "summarizeForecast (\<lambda>x. ''day'') 0
     [\<lparr>dt = 86400, main = Some \<lparr>temp = Some 60, temp_min = None, temp_max = Some 70,
        feels_like = None, humidity = None\<rparr>,
      weather = Some [\<lparr>description = Some ''rain''\<rparr>], pop = None\<rparr>,
      \<lparr>dt = 90000, main = Some \<lparr>temp = Some 55, temp_min = None, temp_max = None,
        feels_like = None, humidity = None\<rparr>,
      weather = Some [\<lparr>description = Some ''sun''\<rparr>], pop = Some (6 / 10)\<rparr>] 0 3
   = Some [\<lparr>day_label = ''day'', day_min = 55, day_max = 70, day_desc = ''rain'', day_pop = 6 / 10\<rparr>] \<and>
   (\<exists>k\<in>dayKeys 0
       [\<lparr>dt = 86400, main = Some \<lparr>temp = Some 60, temp_min = None, temp_max = Some 70,
        feels_like = None, humidity = None\<rparr>,
      weather = Some [\<lparr>description = Some ''rain''\<rparr>], pop = None\<rparr>,
        \<lparr>dt = 90000, main = Some \<lparr>temp = Some 55, temp_min = None, temp_max = None,
        feels_like = None, humidity = None\<rparr>,
      weather = Some [\<lparr>description = Some ''sun''\<rparr>], pop = Some (6 / 10)\<rparr>].
      day_pop \<lparr>day_label = ''day'', day_min = 55, day_max = 70, day_desc = ''rain'', day_pop = 6 / 10\<rparr>
      = Max (set (0 # map (\<lambda>p. case pop p of None \<Rightarrow> 0 | Some v \<Rightarrow> v)
           (dayPoints 0
              [\<lparr>dt = 86400, main = Some \<lparr>temp = Some 60, temp_min = None, temp_max = Some 70,
        feels_like = None, humidity = None\<rparr>,
      weather = Some [\<lparr>description = Some ''rain''\<rparr>], pop = None\<rparr>,
               \<lparr>dt = 90000, main = Some \<lparr>temp = Some 55, temp_min = None, temp_max = None,
        feels_like = None, humidity = None\<rparr>,
      weather = Some [\<lparr>description = Some ''sun''\<rparr>], pop = Some (6 / 10)\<rparr>] k))))"
proof -
  let ?l = "[\<lparr>dt = 86400, main = Some \<lparr>temp = Some 60, temp_min = None, temp_max = Some 70,
        feels_like = None, humidity = None\<rparr>,
      weather = Some [\<lparr>description = Some ''rain''\<rparr>], pop = None\<rparr>,
      \<lparr>dt = 90000, main = Some \<lparr>temp = Some 55, temp_min = None, temp_max = None,
        feels_like = None, humidity = None\<rparr>,
      weather = Some [\<lparr>description = Some ''sun''\<rparr>], pop = Some (6 / 10)\<rparr>]"
  let ?s = "\<lparr>day_label = ''day'', day_min = 55, day_max = 70, day_desc = ''rain'', day_pop = 6 / 10\<rparr>"
  have e: "summarizeForecast (\<lambda>x. ''day'') 0 ?l 0 3 = Some [?s]"
    by code_simp
  have m: "?s \<in> set [?s]" by simp
  from summary_desc_and_pop [OF e m] have "\<exists>k\<in>dayKeys 0 ?l.
      day_pop ?s = Max (set (0 # map (\<lambda>p. case pop p of None \<Rightarrow> 0 | Some v \<Rightarrow> v) (dayPoints 0 ?l k)))"
    by blast
  with e show ?thesis by blast
qed

section \<open>The lookup as a whole\<close>

lemma usFrom_short [simp]: "\<not> usFrom w []" "\<not> usFrom w [x]"
  by (auto simp: usFrom_def Cons_eq_append_conv)

lemma usFrom_step:
  "usFrom w (a # b # rest) \<longleftrightarrow>
     (\<not> w \<and> toLowerChar a = CHR ''u'' \<and> toLowerChar b = CHR ''s'' \<and>
      (case rest of [] \<Rightarrow> True | c # cs \<Rightarrow> \<not> isWordChar c))
     \<or> usFrom (isWordChar a) (b # rest)"
proof
  assume "usFrom w (a # b # rest)"
  then obtain pre x y post where s: "a # b # rest = pre @ x # y # post"
    and l: "toLowerChar x = CHR ''u''" "toLowerChar y = CHR ''s''"
    and p: "case rev pre of [] \<Rightarrow> \<not> w | c # cs \<Rightarrow> \<not> isWordChar c"
    and q: "case post of [] \<Rightarrow> True | c # cs \<Rightarrow> \<not> isWordChar c"
    unfolding usFrom_def by blast
  show "(\<not> w \<and> toLowerChar a = CHR ''u'' \<and> toLowerChar b = CHR ''s'' \<and>
      (case rest of [] \<Rightarrow> True | c # cs \<Rightarrow> \<not> isWordChar c))
     \<or> usFrom (isWordChar a) (b # rest)"
  proof (cases pre)
    case Nil
    with s l p q show ?thesis by simp
  next
    case (Cons z pre')
    with s have z: "z = a" and t: "b # rest = pre' @ x # y # post" by simp_all
    have "case rev pre' of [] \<Rightarrow> \<not> isWordChar a | c # cs \<Rightarrow> \<not> isWordChar c"
      using p unfolding Cons z by (cases pre' rule: rev_cases) simp_all
    with t l q have "usFrom (isWordChar a) (b # rest)"
      unfolding usFrom_def by blast
    then show ?thesis ..
  qed
next
  assume "(\<not> w \<and> toLowerChar a = CHR ''u'' \<and> toLowerChar b = CHR ''s'' \<and>
      (case rest of [] \<Rightarrow> True | c # cs \<Rightarrow> \<not> isWordChar c))
     \<or> usFrom (isWordChar a) (b # rest)"
  then show "usFrom w (a # b # rest)"
  proof
    assume h: "\<not> w \<and> toLowerChar a = CHR ''u'' \<and> toLowerChar b = CHR ''s'' \<and>
      (case rest of [] \<Rightarrow> True | c # cs \<Rightarrow> \<not> isWordChar c)"
    have "a # b # rest = [] @ a # b # rest" by simp
    with h show ?thesis unfolding usFrom_def
      by (intro exI [of _ "[]"] exI [of _ a] exI [of _ b] exI [of _ rest]) simp
  next
    assume "usFrom (isWordChar a) (b # rest)"
    then obtain pre x y post where s: "b # rest = pre @ x # y # post"
      and l: "toLowerChar x = CHR ''u''" "toLowerChar y = CHR ''s''"
      and p: "case rev pre of [] \<Rightarrow> \<not> isWordChar a | c # cs \<Rightarrow> \<not> isWordChar c"
      and q: "case post of [] \<Rightarrow> True | c # cs \<Rightarrow> \<not> isWordChar c"
      unfolding usFrom_def by blast
    have "a # b # rest = (a # pre) @ x # y # post" using s by simp
    moreover have "case rev (a # pre) of [] \<Rightarrow> \<not> w | c # cs \<Rightarrow> \<not> isWordChar c"
      using p by (cases pre rule: rev_cases) simp_all
    ultimately show ?thesis using l q unfolding usFrom_def by blast
  qed
qed

lemma usToken_usFrom: "usToken w s \<longleftrightarrow> usFrom w s"
proof (induction w s rule: usToken.induct)
  case (1 prevWord a b rest)
  then show ?case by (simp add: usFrom_step)
qed simp_all

lemma usStandalone_usFrom: "usStandalone s \<longleftrightarrow> usFrom False s"
  by (simp add: usStandalone_def usFrom_def cong: list.case_cong)

lemma includesStr_single: "includesStr s [c] \<longleftrightarrow> c \<in> set s"
  by (induction s) auto

lemma seemsSpecific_iff:
  "seemsSpecific n \<longleftrightarrow>
     CHR '','' \<in> set n \<or> sublist ''united states'' (toLowerCase n) \<or>
     sublist ''usa'' (toLowerCase n) \<or> usStandalone n"
  unfolding seemsSpecific_def includesStr_single usToken_usFrom usStandalone_usFrom
  by (simp only: includesStr_sublist)





lemma getWeather_with_key:
  assumes "API_KEY env = Some key" and "key \<noteq> []"
  shows "getWeather env place =
     (case geoLoop env (candidatesOf place) [] of
        (calls, Inl e) \<Rightarrow> (calls, Inl e)
      | (calls, Inr None) \<Rightarrow> (calls, Inr (Failure (notFoundMessage place)))
      | (calls, Inr (Some geo)) \<Rightarrow>
          if geo = [] then (calls, Inr (Failure (notFoundMessage place)))
          else if length geo > 1 then
            (if seemsSpecific (normalizePlace place) then
               (case pickBestGeoMatch (normalizePlace place) geo of
                  None \<Rightarrow> (calls, Inl TypeError)
                | Some loc \<Rightarrow> fetchWeather env calls loc)
             else (calls, Inr (Failure (multipleMessage place geo))))
          else fetchWeather env calls (hd geo))"
  using assms by (simp add: getWeather_def assertApiKey_def candidatesOf_def Let_def)

lemma option_lines:
  "map (\<lambda>(i, g). optionLine i g) (enumerate 0 (take 3 geo))
     = map (\<lambda>i. optionLine i (geo ! i)) [0..<min 3 (length geo)]"
  by (simp add: enumerate_as_map comp_def min.commute)

lemma fetchWeather_ok:
  assumes "currentLookup env (lat loc) (lon loc) = JsonBody cur"
    and "forecastLookup env (lat loc) (lon loc) = JsonBody fc"
  shows "fetchWeather env calls loc =
     (calls @ [CurrentCall (lat loc) (lon loc), ForecastCall (lat loc) (lon loc)],
      Inr (Success (placeLine loc) (currentOf cur)
             (map (\<lambda>k. summaryOf (dateFormat env) k
                          (dayAgg (case timezone cur of None \<Rightarrow> 0 | Some z \<Rightarrow> z)
                             (case fc_list fc of None \<Rightarrow> [] | Some l \<Rightarrow> l) k))
                (chosenKeys (dateNow env)
                   (foldl (addPoint (case timezone cur of None \<Rightarrow> 0 | Some z \<Rightarrow> z)) []
                      (case fc_list fc of None \<Rightarrow> [] | Some l \<Rightarrow> l))
                   (case timezone cur of None \<Rightarrow> 0 | Some z \<Rightarrow> z) 3))))"
  using assms by (simp add: fetchWeather_def fetchJson_def Let_def summarizeForecast_Some)

subsection \<open>More than one match\<close>

text \<open>
  C3 (as amended). With the key set, when the loop over the candidates ends with more
  than one match after the removal of duplicates and the normalized input is not specific,
  \<^verbatim>\<open>getWeather\<close> returns (it does not throw) a failure whose message is: the line that
  names the place as typed, then the first three matches at most, one per line, each as
  \<open>**rank.** name, state, country\<close> with the rank in bold between two pairs of
  asterisks and the state left out when the match has none, then an empty line and the
  hint to add state or country. The normalized input is specific exactly when it
  contains a comma, or contains \<open>united states\<close> or \<open>usa\<close> in any case, or contains a
  standalone \<open>us\<close> in any case.
\<close>

theorem ambiguous_location_message:
  assumes "API_KEY env = Some key" and "key \<noteq> []"
    and "geoLoop env (candidatesOf place) [] = (calls, Inr (Some geo))"
    and "1 < length geo"
    and "\<not> seemsSpecific (normalizePlace place)"
  shows "getWeather env place =
     (calls,
      Inr (Failure
        (''I found multiple matches for **'' @ place @ ''**:'' @ [CHR 0x0A] @
         joinWith [CHR 0x0A]
           (map (\<lambda>i. ''**'' @ numToString (int i + 1) @ ''.** '' @ name (geo ! i) @
                      (case state (geo ! i) of None \<Rightarrow> []
                       | Some s \<Rightarrow> if s \<noteq> [] then '', '' @ s else []) @
                      '', '' @ country (geo ! i))
              [0..<min 3 (length geo)]) @
         [CHR 0x0A, CHR 0x0A] @
         ''Try adding state/country (ex: '' @ [CHR 0x22] @ ''Houston, TX, US'' @ [CHR 0x22] @
         '' or '' @ [CHR 0x22] @ ''Paris, FR'' @ [CHR 0x22] @ '').''))) \<and>
     (seemsSpecific (normalizePlace place) \<longleftrightarrow>
        CHR '','' \<in> set (normalizePlace place) \<or>
        sublist ''united states'' (toLowerCase (normalizePlace place)) \<or>
        sublist ''usa'' (toLowerCase (normalizePlace place)) \<or>
        usStandalone (normalizePlace place))"
proof -
  from assms(4) have ne: "geo \<noteq> []" by auto
  have "getWeather env place = (calls, Inr (Failure (multipleMessage place geo)))"
    using assms(3,4,5) ne by (simp add: getWeather_with_key [OF assms(1,2)])
  moreover have "multipleMessage place geo =
        ''I found multiple matches for **'' @ place @ ''**:'' @ [CHR 0x0A] @
         joinWith [CHR 0x0A]
           (map (\<lambda>i. ''**'' @ numToString (int i + 1) @ ''.** '' @ name (geo ! i) @
                      (case state (geo ! i) of None \<Rightarrow> []
                       | Some s \<Rightarrow> if s \<noteq> [] then '', '' @ s else []) @
                      '', '' @ country (geo ! i))
              [0..<min 3 (length geo)]) @
         [CHR 0x0A, CHR 0x0A] @
         ''Try adding state/country (ex: '' @ [CHR 0x22] @ ''Houston, TX, US'' @ [CHR 0x22] @
         '' or '' @ [CHR 0x22] @ ''Paris, FR'' @ [CHR 0x22] @ '').''"
    unfolding multipleMessage_def option_lines optionLine_def placeLine_def by simp
  ultimately show ?thesis
    using seemsSpecific_iff [of "normalizePlace place"] by simp
qed

theorem ambiguous_location_message_witness:
  "getWeather springfieldEnv ''Springfield'' =
     ([GeoCall ''Springfield''],
      Inr (Failure
        (''I found multiple matches for **Springfield**:'' @ [CHR 0x0A] @
         ''**1.** Springfield, Illinois, US'' @ [CHR 0x0A] @
         ''**2.** Springfield, Missouri, US'' @ [CHR 0x0A] @
         ''**3.** Springfield, CA'' @ [CHR 0x0A, CHR 0x0A] @
         ''Try adding state/country (ex: '' @ [CHR 0x22] @ ''Houston, TX, US'' @ [CHR 0x22] @
         '' or '' @ [CHR 0x22] @ ''Paris, FR'' @ [CHR 0x22] @ '').'')))"
proof -
  have k: "API_KEY springfieldEnv = Some ''key''" "''key'' \<noteq> []"
    by (simp_all add: springfieldEnv_def)
  have l: "geoLoop springfieldEnv (candidatesOf ''Springfield'') []
      = ([GeoCall ''Springfield''], Inr (Some springfields))"
    by code_simp
  have n: "1 < length springfields" by (simp add: springfields_def)
  have s: "\<not> seemsSpecific (normalizePlace ''Springfield'')" by code_simp
  have m: "min 3 (length springfields) = 3" by (simp add: springfields_def)
  have d: "numToString 1 = ''1''" "numToString 2 = ''2''" "numToString 3 = ''3''"
    by code_simp+
  have u: "[0..<3] = [0, 1, 2]" by (simp add: upt_rec)
  from ambiguous_location_message [OF k l n s]
  show ?thesis unfolding m u by (simp add: springfields_def d)
qed

text \<open>
  C3 as it is worded fails on the format of an option: the claim has the rank followed by
  a full stop, the code writes the rank and the full stop between two pairs of asterisks.
  For the three places of the example no line of the message is \<open>1. Springfield,
  Illinois, US\<close>.
\<close>

theorem option_format_counterexample:
  "optionLineAsWorded 0 (springfields ! 0) = ''1. Springfield, Illinois, US'' \<and>
   getWeather springfieldEnv ''Springfield'' =
     ([GeoCall ''Springfield''],
      Inr (Failure
        (''I found multiple matches for **Springfield**:'' @ [CHR 0x0A] @
         ''**1.** Springfield, Illinois, US'' @ [CHR 0x0A] @
         ''**2.** Springfield, Missouri, US'' @ [CHR 0x0A] @
         ''**3.** Springfield, CA'' @ [CHR 0x0A, CHR 0x0A] @
         ''Try adding state/country (ex: '' @ [CHR 0x22] @ ''Houston, TX, US'' @ [CHR 0x22] @
         '' or '' @ [CHR 0x22] @ ''Paris, FR'' @ [CHR 0x22] @ '').''))) \<and>
   optionLineAsWorded 0 (springfields ! 0) \<notin>
     set (splitOn (CHR 0x0A)
        (''I found multiple matches for **Springfield**:'' @ [CHR 0x0A] @
         ''**1.** Springfield, Illinois, US'' @ [CHR 0x0A] @
         ''**2.** Springfield, Missouri, US'' @ [CHR 0x0A] @
         ''**3.** Springfield, CA'' @ [CHR 0x0A, CHR 0x0A] @
         ''Try adding state/country (ex: '' @ [CHR 0x22] @ ''Houston, TX, US'' @ [CHR 0x22] @
         '' or '' @ [CHR 0x22] @ ''Paris, FR'' @ [CHR 0x22] @ '').''))"
proof -
  have a: "optionLineAsWorded 0 (springfields ! 0) = ''1. Springfield, Illinois, US''"
    by code_simp
  have b: "getWeather springfieldEnv ''Springfield'' =
     ([GeoCall ''Springfield''],
      Inr (Failure
        (''I found multiple matches for **Springfield**:'' @ [CHR 0x0A] @
         ''**1.** Springfield, Illinois, US'' @ [CHR 0x0A] @
         ''**2.** Springfield, Missouri, US'' @ [CHR 0x0A] @
         ''**3.** Springfield, CA'' @ [CHR 0x0A, CHR 0x0A] @
         ''Try adding state/country (ex: '' @ [CHR 0x22] @ ''Houston, TX, US'' @ [CHR 0x22] @
         '' or '' @ [CHR 0x22] @ ''Paris, FR'' @ [CHR 0x22] @ '').'')))"
    by code_simp
  have c: "''1. Springfield, Illinois, US'' \<notin>
     set (splitOn (CHR 0x0A)
        (''I found multiple matches for **Springfield**:'' @ [CHR 0x0A] @
         ''**1.** Springfield, Illinois, US'' @ [CHR 0x0A] @
         ''**2.** Springfield, Missouri, US'' @ [CHR 0x0A] @
         ''**3.** Springfield, CA'' @ [CHR 0x0A, CHR 0x0A] @
         ''Try adding state/country (ex: '' @ [CHR 0x22] @ ''Houston, TX, US'' @ [CHR 0x22] @
         '' or '' @ [CHR 0x22] @ ''Paris, FR'' @ [CHR 0x22] @ '').''))"
    by code_simp
  from a b c show ?thesis by (simp only: simp_thms)
qed

subsection \<open>Thrown and returned\<close>



subsection \<open>The offset of the day buckets\<close>

lemma getWeather_located:
  assumes "API_KEY env = Some key" and "key \<noteq> []"
    and "geoLoop env (candidatesOf place) [] = (calls, Inr (Some geo))"
    and "geo = [loc] \<or>
         (1 < length geo \<and> seemsSpecific (normalizePlace place) \<and>
          pickBestGeoMatch (normalizePlace place) geo = Some loc)"
  shows "getWeather env place = fetchWeather env calls loc"
  using assms(3,4) by (auto simp: getWeather_with_key [OF assms(1,2)])

text \<open>
  C10. When the call reaches the weather requests for a location (the only match, or the
  best match of a specific input) and the answer with the current conditions has no
  \<^verbatim>\<open>timezone\<close>, the call succeeds with the summary of the forecast list under the offset
  0. Nothing of the forecast answer but its list enters the result: its own offset is not
  read.
\<close>

theorem missing_offset_is_utc:
  assumes "API_KEY env = Some key" and "key \<noteq> []"
    and "geoLoop env (candidatesOf place) [] = (calls, Inr (Some geo))"
    and "geo = [loc] \<or>
         (1 < length geo \<and> seemsSpecific (normalizePlace place) \<and>
          pickBestGeoMatch (normalizePlace place) geo = Some loc)"
    and "currentLookup env (lat loc) (lon loc) = JsonBody cur"
    and "timezone cur = None"
    and "forecastLookup env (lat loc) (lon loc) = JsonBody fc"
  shows "\<exists>nextDays.
           summarizeForecast (dateFormat env) (dateNow env)
             (case fc_list fc of None \<Rightarrow> [] | Some l \<Rightarrow> l) 0 3 = Some nextDays \<and>
           getWeather env place =
             (calls @ [CurrentCall (lat loc) (lon loc), ForecastCall (lat loc) (lon loc)],
              Inr (Success (placeLine loc) (currentOf cur) nextDays))"
proof -
  have "getWeather env place = fetchWeather env calls loc"
    using assms(1-4) by (rule getWeather_located)
  also have "\<dots> =
     (calls @ [CurrentCall (lat loc) (lon loc), ForecastCall (lat loc) (lon loc)],
      Inr (Success (placeLine loc) (currentOf cur)
             (map (\<lambda>k. summaryOf (dateFormat env) k
                          (dayAgg 0 (case fc_list fc of None \<Rightarrow> [] | Some l \<Rightarrow> l) k))
                (chosenKeys (dateNow env)
                   (foldl (addPoint 0) [] (case fc_list fc of None \<Rightarrow> [] | Some l \<Rightarrow> l)) 0 3))))"
    using fetchWeather_ok [OF assms(5,7), of calls] by (simp add: assms(6))
  finally show ?thesis
    by (simp add: summarizeForecast_Some)
qed

theorem missing_offset_is_utc_witness:
  "getWeather springfieldEnv ''Springfield, Illinois'' =
     ([GeoCall ''Springfield, Illinois'', CurrentCall 39 (- 89), ForecastCall 39 (- 89)],
      Inr (Success ''Springfield, Illinois, US''
             \<lparr>cur_temp = None, cur_feels = None, cur_humidity = None, cur_wind = None,
              cur_desc = ''unknown''\<rparr>
             [\<lparr>day_label = ''2'', day_min = 55, day_max = 70, day_desc = ''rain'',
               day_pop = 6 / 10\<rparr>]))"
proof -
  let ?loc = "\<lparr>name = ''Springfield'', state = Some ''Illinois'', country = ''US'',
               lat = 39 :: int, lon = - 89 :: int\<rparr>"
  let ?cur = "\<lparr>timezone = None, cur_main = None, wind = None, cur_weather = None\<rparr>"
  let ?l = "[\<lparr>dt = 169200,
                main = Some \<lparr>temp = Some 60, temp_min = None, temp_max = Some 70,
                             feels_like = None, humidity = None\<rparr>,
                weather = Some [\<lparr>description = Some ''rain''\<rparr>], pop = None\<rparr>,
               \<lparr>dt = 171000,
                main = Some \<lparr>temp = Some 55, temp_min = None, temp_max = None,
                             feels_like = None, humidity = None\<rparr>,
                weather = Some [\<lparr>description = Some ''sun''\<rparr>], pop = Some (6 / 10)\<rparr>]"
  let ?fc = "\<lparr>fc_list = Some ?l, fc_timezone = Some 3600\<rparr>"
  have k: "API_KEY springfieldEnv = Some ''key''" "''key'' \<noteq> []"
    by (simp_all add: springfieldEnv_def)
  have l: "geoLoop springfieldEnv (candidatesOf ''Springfield, Illinois'') []
      = ([GeoCall ''Springfield, Illinois''], Inr (Some springfields))"
    by code_simp
  have p: "1 < length springfields \<and> seemsSpecific (normalizePlace ''Springfield, Illinois'') \<and>
      pickBestGeoMatch (normalizePlace ''Springfield, Illinois'') springfields = Some ?loc"
    by code_simp
  then have p': "springfields = [?loc] \<or>
      (1 < length springfields \<and> seemsSpecific (normalizePlace ''Springfield, Illinois'') \<and>
       pickBestGeoMatch (normalizePlace ''Springfield, Illinois'') springfields = Some ?loc)"
    by (rule disjI2)
  have c: "currentLookup springfieldEnv (lat ?loc) (lon ?loc) = JsonBody ?cur"
    by (simp add: springfieldEnv_def)
  have t: "timezone ?cur = None" by simp
  have f: "forecastLookup springfieldEnv (lat ?loc) (lon ?loc) = JsonBody ?fc"
    by (simp add: springfieldEnv_def)
  have s: "summarizeForecast (dateFormat springfieldEnv) (dateNow springfieldEnv) ?l 0 3
      = Some [\<lparr>day_label = ''2'', day_min = 55, day_max = 70, day_desc = ''rain'',
               day_pop = 6 / 10\<rparr>]"
    by code_simp
  have o: "currentOf ?cur = \<lparr>cur_temp = None, cur_feels = None, cur_humidity = None,
      cur_wind = None, cur_desc = ''unknown''\<rparr>"
    by (simp add: currentOf_def)
  have pl: "placeLine ?loc = ''Springfield, Illinois, US''"
    by (simp add: placeLine_def)
  have fl: "(case fc_list ?fc of None \<Rightarrow> [] | Some l \<Rightarrow> l) = ?l" by simp
  from missing_offset_is_utc [OF k l p' c t f, unfolded fl]
  obtain nextDays where a: "summarizeForecast (dateFormat springfieldEnv) (dateNow springfieldEnv) ?l 0 3
      = Some nextDays"
    and b: "getWeather springfieldEnv ''Springfield, Illinois'' =
      ([GeoCall ''Springfield, Illinois''] @ [CurrentCall (lat ?loc) (lon ?loc), ForecastCall (lat ?loc) (lon ?loc)],
       Inr (Success (placeLine ?loc) (currentOf ?cur) nextDays))"
    by blast
  from a have "nextDays = [\<lparr>day_label = ''2'', day_min = 55, day_max = 70, day_desc = ''rain'',
      day_pop = 6 / 10\<rparr>]"
    unfolding s by (simp only: option.inject)
  with b show ?thesis unfolding o pl by simp
qed

end
